theory Spec2Isabelle
  imports Main "HOL-Library.Multiset"
begin

section \<open>The board engine of TwentyFive (internal/app)\<close>

text \<open>
  A shallow embedding of the state mutation engine of \<^verbatim>\<open>internal/app/store.go\<close>,
  \<^verbatim>\<open>internal/app/requests.go\<close> and the model file (constants, types, errors,
  \<^verbatim>\<open>ValidateTaskState\<close>, \<^verbatim>\<open>NormalizeSize\<close>).
  Go slices are lists, Go structs are records, a nil pointer is \<open>None\<close>, and an
  \<^verbatim>\<open>error\<close> is a value of the datatype \<open>error\<close>.  Every \<^verbatim>\<open>Store\<close>
  method is a function from the in-memory board to a result and the in-memory board
  after the call: \<^verbatim>\<open>withWrite\<close> runs the closure on \<^verbatim>\<open>&s.state\<close>, so whatever the
  closure wrote before it returned an error stays in \<^verbatim>\<open>s.state\<close>.  The file write of
  \<^verbatim>\<open>saveLocked\<close> does not touch \<^verbatim>\<open>s.state\<close> and is left out.  \<^verbatim>\<open>Clone\<close> is a deep
  copy, which on values is the identity.
\<close>

subsection \<open>Constants and errors\<close>

definition ColumnCapacity :: int where "ColumnCapacity = 5"
definition CategoryLimit :: nat where "CategoryLimit = 5"

definition LocationCategory :: string where "LocationCategory = ''category''"
definition LocationBackburner :: string where "LocationBackburner = ''backburner''"
definition LocationArchive :: string where "LocationArchive = ''archive''"
definition LocationCategoryBoard :: string where "LocationCategoryBoard = ''board''"

text \<open>
  The nine sentinel errors.  \<open>ErrInvalidState\<close> and \<open>ErrInvalidRequest\<close> carry the text
  that \<^verbatim>\<open>fmt.Errorf("%w: ...")\<close> wraps around the sentinel.  \<open>PlainError\<close> is an error
  built by \<^verbatim>\<open>fmt.Errorf\<close> with no \<^verbatim>\<open>%w\<close>: \<^verbatim>\<open>errors.Is\<close> matches it with no sentinel.
  \<open>RuntimePanic\<close> stands for a Go run-time panic (slice bounds out of range).
\<close>

datatype error =
    ErrTaskNotFound
  | ErrCategoryNotFound
  | ErrCapacityExceeded
  | ErrInvalidState string
  | ErrInvalidLocation
  | ErrInvalidTaskSize
  | ErrInvalidRequest string
  | ErrDuplicateCategory
  | ErrCategoryLimit
  | PlainError string
  | RuntimePanic

subsection \<open>Data model\<close>

record TaskLink =
  LinkText :: string
  LinkURL :: string

record ChecklistItem =
  ItemText :: string
  Done :: bool

record Task =
  ID :: string
  Name :: string
  Description :: string
  Notes :: string
  State :: string
  Size :: int
  Links :: "TaskLink list"
  Checklist :: "ChecklistItem list"
  Urgent :: bool
  Focused :: bool
  SourceID :: string
  Source :: string

record Category =
  CatID :: string
  CatName :: string
  Tasks :: "Task list"

record BoardState =
  Categories :: "Category list"
  Backburner :: "Task list"
  Archives :: "Task list"
  CategoryBackburner :: "Category list"
  CategoryArchives :: "Category list"

text \<open>The zero values \<^verbatim>\<open>Task{}\<close> and \<^verbatim>\<open>Category{}\<close>.\<close>

definition zeroTask :: Task where
  "zeroTask = \<lparr>ID = [], Name = [], Description = [], Notes = [], State = [], Size = 0,
     Links = [], Checklist = [], Urgent = False, Focused = False, SourceID = [], Source = []\<rparr>"

subsection \<open>Validation (model file)\<close>

definition allowedStates :: "string list" where
  "allowedStates = [''todo'', ''doing'', ''blocked'', ''done'', ''delegated'']"

definition ValidateTaskState :: "string \<Rightarrow> error option" where
  "ValidateTaskState st = (if st \<in> set allowedStates then None else Some (ErrInvalidState st))"

definition NormalizeSize :: "int \<Rightarrow> error + int" where
  "NormalizeSize sz = (if sz < 1 \<or> sz > 5 then Inl ErrInvalidTaskSize else Inr sz)"

subsection \<open>Requests (requests.go)\<close>

record CreateTaskRequest =
  ct_Location :: string
  ct_CategoryID :: string
  ct_Position :: "int option"
  ct_Task :: Task

definition CreateTaskRequest_Normalize :: "CreateTaskRequest \<Rightarrow> CreateTaskRequest" where
  "CreateTaskRequest_Normalize r =
     (if ct_Location r = [] then r\<lparr>ct_Location := LocationCategory\<rparr> else r)"

definition CreateTaskRequest_Validate :: "CreateTaskRequest \<Rightarrow> error option" where
  "CreateTaskRequest_Validate r =
     (case ValidateTaskState (State (ct_Task r)) of
        Some e \<Rightarrow> Some e
      | None \<Rightarrow>
         (case NormalizeSize (Size (ct_Task r)) of
            Inl e \<Rightarrow> Some e
          | Inr _ \<Rightarrow>
             (if ct_Location r = LocationCategory then
                (if ct_CategoryID r = []
                 then Some (ErrInvalidRequest ''categoryId required for category location'')
                 else None)
              else if ct_Location r = LocationBackburner \<or> ct_Location r = LocationArchive
              then None
              else Some ErrInvalidLocation)))"

record TaskPatch =
  p_Name :: "string option"
  p_Description :: "string option"
  p_Notes :: "string option"
  p_State :: "string option"
  p_Size :: "int option"
  p_Links :: "TaskLink list option"
  p_Checklist :: "ChecklistItem list option"
  p_Urgent :: "bool option"

text \<open>
  \<^verbatim>\<open>TaskPatch.Apply\<close> writes through the pointer field by field, so a patch that fails at
  \<open>State\<close> or \<open>Size\<close> has already written the fields before it.  The model returns
  the task as it stands when \<^verbatim>\<open>Apply\<close> returns, together with the error.
\<close>

definition TaskPatch_Apply :: "TaskPatch \<Rightarrow> Task \<Rightarrow> error option \<times> Task" where
  "TaskPatch_Apply p task =
     (let t1 = (case p_Name p of Some v \<Rightarrow> task\<lparr>Name := v\<rparr> | None \<Rightarrow> task);
          t2 = (case p_Description p of Some v \<Rightarrow> t1\<lparr>Description := v\<rparr> | None \<Rightarrow> t1);
          t3 = (case p_Notes p of Some v \<Rightarrow> t2\<lparr>Notes := v\<rparr> | None \<Rightarrow> t2)
      in case (case p_State p of
                 None \<Rightarrow> Inr t3
               | Some v \<Rightarrow> (case ValidateTaskState v of
                              Some e \<Rightarrow> Inl e
                            | None \<Rightarrow> Inr (t3\<lparr>State := v\<rparr>))) of
           Inl e \<Rightarrow> (Some e, t3)
         | Inr t4 \<Rightarrow>
            (case (case p_Size p of
                     None \<Rightarrow> Inr t4
                   | Some v \<Rightarrow> (case NormalizeSize v of
                                  Inl e \<Rightarrow> Inl e
                                | Inr sz \<Rightarrow> Inr (t4\<lparr>Size := sz\<rparr>))) of
               Inl e \<Rightarrow> (Some e, t4)
             | Inr t5 \<Rightarrow>
                (let t6 = (case p_Links p of Some v \<Rightarrow> t5\<lparr>Links := v\<rparr> | None \<Rightarrow> t5);
                     t7 = (case p_Checklist p of Some v \<Rightarrow> t6\<lparr>Checklist := v\<rparr> | None \<Rightarrow> t6);
                     t8 = (case p_Urgent p of Some v \<Rightarrow> t7\<lparr>Urgent := v\<rparr> | None \<Rightarrow> t7)
                 in (None, t8))))"

record MoveTaskRequest =
  mv_Location :: string
  mv_CategoryID :: string
  mv_Position :: "int option"
  mv_SourceID :: string
  mv_Source :: string

definition MoveTaskRequest_Normalize :: "MoveTaskRequest \<Rightarrow> MoveTaskRequest" where
  "MoveTaskRequest_Normalize r =
     (if mv_Location r = [] then r\<lparr>mv_Location := LocationCategory\<rparr> else r)"

definition MoveTaskRequest_Validate :: "MoveTaskRequest \<Rightarrow> error option" where
  "MoveTaskRequest_Validate r =
     (if mv_Location r = LocationCategory then
        (if mv_CategoryID r = []
         then Some (ErrInvalidRequest ''categoryId required for category move'')
         else None)
      else if mv_Location r = LocationBackburner \<or> mv_Location r = LocationArchive
      then None
      else Some ErrInvalidLocation)"

record MoveCategoryRequest =
  mc_Location :: string
  mc_Position :: "int option"

definition MoveCategoryRequest_Normalize :: "MoveCategoryRequest \<Rightarrow> MoveCategoryRequest" where
  "MoveCategoryRequest_Normalize r =
     (if mc_Location r = [] then r\<lparr>mc_Location := LocationCategoryBoard\<rparr> else r)"

definition MoveCategoryRequest_Validate :: "MoveCategoryRequest \<Rightarrow> error option" where
  "MoveCategoryRequest_Validate r =
     (if mc_Location r = LocationCategoryBoard \<or> mc_Location r = LocationBackburner
         \<or> mc_Location r = LocationArchive
      then None else Some ErrInvalidLocation)"

subsection \<open>Slices\<close>

text \<open>
  \<^verbatim>\<open>xs = append(xs, zero); copy(xs[i+1:], xs[i:]); xs[i] = x\<close> for \<open>i \<le> len(xs)\<close>, and
  \<^verbatim>\<open>append(xs[:i], xs[i+1:]...)\<close> for \<open>i < len(xs)\<close>.
\<close>

definition insert_at :: "nat \<Rightarrow> 'a \<Rightarrow> 'a list \<Rightarrow> 'a list" where
  "insert_at i x xs = take i xs @ x # drop i xs"

definition remove_at :: "nat \<Rightarrow> 'a list \<Rightarrow> 'a list" where
  "remove_at i xs = take i xs @ drop (Suc i) xs"

text \<open>
  The insertion index of \<^verbatim>\<open>insertTask\<close>, \<^verbatim>\<open>placeTask\<close> and \<^verbatim>\<open>placeCategory\<close>: the
  requested position when it is given and within \<open>0..len\<close>, the end otherwise.
\<close>

definition insertIndex :: "int option \<Rightarrow> nat \<Rightarrow> nat" where
  "insertIndex pos n =
     (case pos of
        Some p \<Rightarrow> if 0 \<le> p \<and> p \<le> int n then nat p else n
      | None \<Rightarrow> n)"

subsection \<open>Capacity, urgent and focus (store.go)\<close>

text \<open>
  Go's \<^verbatim>\<open>int\<close> is 64 bits wide on the platforms the server runs on; \<^verbatim>\<open>total += t.Size\<close>
  wraps around.
\<close>

definition wrap64 :: "int \<Rightarrow> int" where
  "wrap64 x = (x + 2 ^ 63) mod 2 ^ 64 - 2 ^ 63"

fun capacity_loop :: "int \<Rightarrow> Task list \<Rightarrow> error option" where
  "capacity_loop tot [] = None"
| "capacity_loop tot (t # ts) =
     (let tot' = wrap64 (tot + Size t)
      in if tot' > ColumnCapacity then Some ErrCapacityExceeded
         else capacity_loop tot' ts)"

definition ensureCapacity :: "Category \<Rightarrow> error option" where
  "ensureCapacity cat = capacity_loop 0 (Tasks cat)"

text \<open>
  \<^verbatim>\<open>normalizeUrgent\<close> indexes \<^verbatim>\<open>state.Categories[catIdx]\<close>; every caller passes an index
  that \<^verbatim>\<open>findTask\<close> or \<^verbatim>\<open>findCategoryIndex\<close> has just returned for the same slice.
\<close>

definition normalizeUrgent :: "BoardState \<Rightarrow> nat \<Rightarrow> string \<Rightarrow> BoardState" where
  "normalizeUrgent s catIdx urgentTaskID =
     s\<lparr>Categories := (Categories s)[catIdx :=
          (Categories s ! catIdx)\<lparr>Tasks :=
             map (\<lambda>t. t\<lparr>Urgent := (ID t = urgentTaskID)\<rparr>) (Tasks (Categories s ! catIdx))\<rparr>]\<rparr>"

definition unfocus :: "Task \<Rightarrow> Task" where
  "unfocus t = t\<lparr>Focused := False\<rparr>"

definition clearCategoryFocus :: "Category \<Rightarrow> Category" where
  "clearCategoryFocus cat = cat\<lparr>Tasks := map unfocus (Tasks cat)\<rparr>"

definition normalizeFocus :: "BoardState \<Rightarrow> string \<Rightarrow> BoardState" where
  "normalizeFocus s focusedID =
     \<lparr>Categories =
        map (\<lambda>c. c\<lparr>Tasks := map (\<lambda>t. t\<lparr>Focused := (ID t = focusedID \<and> focusedID \<noteq> [])\<rparr>)
                                (Tasks c)\<rparr>) (Categories s),
      Backburner = map unfocus (Backburner s),
      Archives = map unfocus (Archives s),
      CategoryBackburner = map clearCategoryFocus (CategoryBackburner s),
      CategoryArchives = map clearCategoryFocus (CategoryArchives s)\<rparr>"

definition clearFocus :: "BoardState \<Rightarrow> BoardState" where
  "clearFocus s =
     \<lparr>Categories = map clearCategoryFocus (Categories s),
      Backburner = map unfocus (Backburner s),
      Archives = map unfocus (Archives s),
      CategoryBackburner = map clearCategoryFocus (CategoryBackburner s),
      CategoryArchives = map clearCategoryFocus (CategoryArchives s)\<rparr>"

subsection \<open>Finding, removing and restoring tasks\<close>

record taskLocation =
  Kind :: string
  CategoryIndex :: nat
  TaskIndex :: nat

fun find_task_index :: "Task list \<Rightarrow> string \<Rightarrow> nat option" where
  "find_task_index [] tid = None"
| "find_task_index (t # ts) tid =
     (if ID t = tid then Some 0 else map_option Suc (find_task_index ts tid))"

fun find_in_categories :: "Category list \<Rightarrow> string \<Rightarrow> (nat \<times> nat) option" where
  "find_in_categories [] tid = None"
| "find_in_categories (c # cs) tid =
     (case find_task_index (Tasks c) tid of
        Some ti \<Rightarrow> Some (0, ti)
      | None \<Rightarrow> map_option (\<lambda>(ci, ti). (Suc ci, ti)) (find_in_categories cs tid))"

text \<open>
  \<^verbatim>\<open>findTask\<close>: active categories, then the backburner, then the archive; the parked
  categories are not scanned.  \<open>None\<close> is \<^verbatim>\<open>ErrTaskNotFound\<close>; the pointer the Go
  function returns is the address \<open>loc\<close>, read by \<open>task_at\<close> and written by
  \<open>set_task\<close>.
\<close>

definition findTask :: "BoardState \<Rightarrow> string \<Rightarrow> taskLocation option" where
  "findTask s tid =
     (case find_in_categories (Categories s) tid of
        Some (ci, ti) \<Rightarrow> Some \<lparr>Kind = LocationCategory, CategoryIndex = ci, TaskIndex = ti\<rparr>
      | None \<Rightarrow>
         (case find_task_index (Backburner s) tid of
            Some i \<Rightarrow> Some \<lparr>Kind = LocationBackburner, CategoryIndex = 0, TaskIndex = i\<rparr>
          | None \<Rightarrow>
             (case find_task_index (Archives s) tid of
                Some i \<Rightarrow> Some \<lparr>Kind = LocationArchive, CategoryIndex = 0, TaskIndex = i\<rparr>
              | None \<Rightarrow> None)))"

definition nth_opt :: "'a list \<Rightarrow> nat \<Rightarrow> 'a option" where
  "nth_opt xs i = (if i < length xs then Some (xs ! i) else None)"

definition task_at :: "BoardState \<Rightarrow> taskLocation \<Rightarrow> Task option" where
  "task_at s loc =
     (if Kind loc = LocationCategory then
        (case nth_opt (Categories s) (CategoryIndex loc) of
           Some c \<Rightarrow> nth_opt (Tasks c) (TaskIndex loc)
         | None \<Rightarrow> None)
      else if Kind loc = LocationBackburner then nth_opt (Backburner s) (TaskIndex loc)
      else if Kind loc = LocationArchive then nth_opt (Archives s) (TaskIndex loc)
      else None)"

definition set_task :: "BoardState \<Rightarrow> taskLocation \<Rightarrow> Task \<Rightarrow> BoardState" where
  "set_task s loc t =
     (if Kind loc = LocationCategory then
        s\<lparr>Categories := (Categories s)[CategoryIndex loc :=
             (Categories s ! CategoryIndex loc)\<lparr>Tasks :=
                (Tasks (Categories s ! CategoryIndex loc))[TaskIndex loc := t]\<rparr>]\<rparr>
      else if Kind loc = LocationBackburner then
        s\<lparr>Backburner := (Backburner s)[TaskIndex loc := t]\<rparr>
      else if Kind loc = LocationArchive then
        s\<lparr>Archives := (Archives s)[TaskIndex loc := t]\<rparr>
      else s)"

definition removeTask :: "BoardState \<Rightarrow> string \<Rightarrow> (Task \<times> taskLocation \<times> BoardState) option" where
  "removeTask s tid =
     (case findTask s tid of
        None \<Rightarrow> None
      | Some loc \<Rightarrow>
         (case task_at s loc of
            None \<Rightarrow> None
          | Some task \<Rightarrow>
             Some (task, loc,
               if Kind loc = LocationCategory then
                 s\<lparr>Categories := (Categories s)[CategoryIndex loc :=
                      (Categories s ! CategoryIndex loc)\<lparr>Tasks :=
                         remove_at (TaskIndex loc) (Tasks (Categories s ! CategoryIndex loc))\<rparr>]\<rparr>
               else if Kind loc = LocationBackburner then
                 s\<lparr>Backburner := remove_at (TaskIndex loc) (Backburner s)\<rparr>
               else if Kind loc = LocationArchive then
                 s\<lparr>Archives := remove_at (TaskIndex loc) (Archives s)\<rparr>
               else s)))"

text \<open>
  \<^verbatim>\<open>restoreTask\<close>.  In a category the task is appended when the index is at or past the
  end; in the backburner and the archive \<^verbatim>\<open>xs[loc.TaskIndex+1:]\<close> panics when the index
  is past the end.  \<open>None\<close> is that panic (or the one of \<^verbatim>\<open>state.Categories[i]\<close>).
\<close>

definition restoreTask :: "BoardState \<Rightarrow> Task \<Rightarrow> taskLocation \<Rightarrow> BoardState option" where
  "restoreTask s task loc =
     (if Kind loc = LocationCategory then
        (case nth_opt (Categories s) (CategoryIndex loc) of
           None \<Rightarrow> None
         | Some cat \<Rightarrow>
            Some (s\<lparr>Categories := (Categories s)[CategoryIndex loc :=
                    cat\<lparr>Tasks :=
                      (if TaskIndex loc \<ge> length (Tasks cat) then Tasks cat @ [task]
                       else insert_at (TaskIndex loc) task (Tasks cat))\<rparr>]\<rparr>))
      else if Kind loc = LocationBackburner then
        (if TaskIndex loc \<le> length (Backburner s)
         then Some (s\<lparr>Backburner := insert_at (TaskIndex loc) task (Backburner s)\<rparr>)
         else None)
      else if Kind loc = LocationArchive then
        (if TaskIndex loc \<le> length (Archives s)
         then Some (s\<lparr>Archives := insert_at (TaskIndex loc) task (Archives s)\<rparr>)
         else None)
      else Some s)"

subsection \<open>Inserting and placing tasks\<close>

fun findCategoryIndex :: "Category list \<Rightarrow> string \<Rightarrow> nat option" where
  "findCategoryIndex [] cid = None"
| "findCategoryIndex (c # cs) cid =
     (if CatID c = cid then Some 0 else map_option Suc (findCategoryIndex cs cid))"

text \<open>
  \<^verbatim>\<open>insertTask\<close>; \<open>newid\<close> is the string \<^verbatim>\<open>NewID()\<close> returns when the request carries
  no task ID.  The result is the task handed back to the caller and the board as the
  function leaves it, also when it fails.
\<close>

definition insertTask :: "string \<Rightarrow> BoardState \<Rightarrow> CreateTaskRequest \<Rightarrow> (error + Task) \<times> BoardState" where
  "insertTask newid s req =
     (let task0 = ct_Task req;
          task1 = (if ID task0 = [] then task0\<lparr>ID := newid\<rparr> else task0);
          task2 = (if Size task1 = 0 then task1\<lparr>Size := 1\<rparr> else task1)
      in case NormalizeSize (Size task2) of
           Inl e \<Rightarrow> (Inl e, s)
         | Inr sz \<Rightarrow>
            (let task = task2\<lparr>Size := sz\<rparr>
             in case ValidateTaskState (State task) of
                  Some e \<Rightarrow> (Inl e, s)
                | None \<Rightarrow>
                   if ct_Location req = LocationCategory then
                     (case findCategoryIndex (Categories s) (ct_CategoryID req) of
                        None \<Rightarrow> (Inl ErrCategoryNotFound, s)
                      | Some idx \<Rightarrow>
                         (let cat = Categories s ! idx;
                              i = insertIndex (ct_Position req) (length (Tasks cat));
                              cat1 = cat\<lparr>Tasks := insert_at i task (Tasks cat)\<rparr>
                          in case ensureCapacity cat1 of
                               Some e \<Rightarrow>
                                 (Inl e, s\<lparr>Categories := (Categories s)[idx :=
                                            cat1\<lparr>Tasks := remove_at i (Tasks cat1)\<rparr>]\<rparr>)
                             | None \<Rightarrow>
                                 (let s1 = s\<lparr>Categories := (Categories s)[idx := cat1]\<rparr>;
                                      s2 = (if Urgent task then normalizeUrgent s1 idx (ID task)
                                            else s1);
                                      s3 = (if Focused task then normalizeFocus s2 (ID task)
                                            else s2)
                                  in (Inr task, s3))))
                   else if ct_Location req = LocationBackburner then
                     (let task' = task\<lparr>Urgent := False, Focused := False\<rparr>
                      in (Inr task', s\<lparr>Backburner := Backburner s @ [task']\<rparr>))
                   else if ct_Location req = LocationArchive then
                     (let task' = task\<lparr>Urgent := False, Focused := False\<rparr>
                      in (Inr task', s\<lparr>Archives := Archives s @ [task']\<rparr>))
                   else (Inl ErrInvalidLocation, s)))"

text \<open>
  \<^verbatim>\<open>placeTask\<close>.  For a category destination the urgent flags of the destination are
  rewritten before the task is spliced in and before the capacity check; when the check
  fails only the splice is undone.
\<close>

definition placeTask :: "BoardState \<Rightarrow> Task \<Rightarrow> MoveTaskRequest \<Rightarrow> error option \<times> BoardState" where
  "placeTask s task0 dest0 =
     (let dest = MoveTaskRequest_Normalize dest0
      in case MoveTaskRequest_Validate dest of
           Some e \<Rightarrow> (Some e, s)
         | None \<Rightarrow>
            (let task1 = task0\<lparr>Focused := False\<rparr>
             in if mv_Location dest = LocationCategory then
                  (case findCategoryIndex (Categories s) (mv_CategoryID dest) of
                     None \<Rightarrow> (Some ErrCategoryNotFound, s)
                   | Some idx \<Rightarrow>
                      (let i = insertIndex (mv_Position dest)
                                 (length (Tasks (Categories s ! idx)));
                           task = task1\<lparr>SourceID := [], Source := []\<rparr>;
                           s1 = normalizeUrgent s idx (if Urgent task then ID task else []);
                           cat = Categories s1 ! idx;
                           cat1 = cat\<lparr>Tasks := insert_at i task (Tasks cat)\<rparr>
                       in case ensureCapacity cat1 of
                            Some e \<Rightarrow>
                              (Some e, s1\<lparr>Categories := (Categories s1)[idx :=
                                          cat1\<lparr>Tasks := remove_at i (Tasks cat1)\<rparr>]\<rparr>)
                          | None \<Rightarrow> (None, s1\<lparr>Categories := (Categories s1)[idx := cat1]\<rparr>)))
                else if mv_Location dest = LocationBackburner then
                  (let task = task1\<lparr>Urgent := False, Focused := False,
                                    SourceID := mv_SourceID dest, Source := mv_Source dest\<rparr>
                   in (None, s\<lparr>Backburner := Backburner s @ [task]\<rparr>))
                else if mv_Location dest = LocationArchive then
                  (let task = task1\<lparr>Urgent := False, Focused := False,
                                    SourceID := mv_SourceID dest, Source := mv_Source dest\<rparr>
                   in (None, s\<lparr>Archives := Archives s @ [task]\<rparr>))
                else (Some ErrInvalidLocation, s)))"

subsection \<open>Removing, placing and restoring categories\<close>

record categoryLocation =
  cl_Kind :: string
  cl_Index :: nat

definition removeCategory :: "BoardState \<Rightarrow> string \<Rightarrow> (Category \<times> categoryLocation \<times> BoardState) option" where
  "removeCategory s cid =
     (case findCategoryIndex (Categories s) cid of
        Some i \<Rightarrow>
          Some (Categories s ! i, \<lparr>cl_Kind = LocationCategoryBoard, cl_Index = i\<rparr>,
                s\<lparr>Categories := remove_at i (Categories s)\<rparr>)
      | None \<Rightarrow>
         (case findCategoryIndex (CategoryBackburner s) cid of
            Some i \<Rightarrow>
              Some (CategoryBackburner s ! i, \<lparr>cl_Kind = LocationBackburner, cl_Index = i\<rparr>,
                    s\<lparr>CategoryBackburner := remove_at i (CategoryBackburner s)\<rparr>)
          | None \<Rightarrow>
             (case findCategoryIndex (CategoryArchives s) cid of
                Some i \<Rightarrow>
                  Some (CategoryArchives s ! i, \<lparr>cl_Kind = LocationArchive, cl_Index = i\<rparr>,
                        s\<lparr>CategoryArchives := remove_at i (CategoryArchives s)\<rparr>)
              | None \<Rightarrow> None)))"

text \<open>\<open>None\<close> is the panic of \<^verbatim>\<open>xs[loc.Index+1:]\<close> with the index past the end.\<close>

definition restoreCategory :: "BoardState \<Rightarrow> Category \<Rightarrow> categoryLocation \<Rightarrow> BoardState option" where
  "restoreCategory s cat loc =
     (if cl_Kind loc = LocationCategoryBoard then
        (if cl_Index loc \<ge> length (Categories s)
         then Some (s\<lparr>Categories := Categories s @ [cat]\<rparr>)
         else Some (s\<lparr>Categories := insert_at (cl_Index loc) cat (Categories s)\<rparr>))
      else if cl_Kind loc = LocationBackburner then
        (if cl_Index loc \<le> length (CategoryBackburner s)
         then Some (s\<lparr>CategoryBackburner := insert_at (cl_Index loc) cat (CategoryBackburner s)\<rparr>)
         else None)
      else if cl_Kind loc = LocationArchive then
        (if cl_Index loc \<le> length (CategoryArchives s)
         then Some (s\<lparr>CategoryArchives := insert_at (cl_Index loc) cat (CategoryArchives s)\<rparr>)
         else None)
      else Some s)"

definition placeCategory :: "BoardState \<Rightarrow> Category \<Rightarrow> MoveCategoryRequest \<Rightarrow> error option \<times> BoardState" where
  "placeCategory s cat dest =
     (if mc_Location dest = LocationCategoryBoard then
        (if length (Categories s) \<ge> CategoryLimit then (Some ErrCategoryLimit, s)
         else case ensureCapacity cat of
                Some e \<Rightarrow> (Some e, s)
              | None \<Rightarrow>
                 (None, s\<lparr>Categories :=
                    insert_at (insertIndex (mc_Position dest) (length (Categories s))) cat
                      (Categories s)\<rparr>))
      else if mc_Location dest = LocationBackburner then
        (None, s\<lparr>CategoryBackburner := CategoryBackburner s @ [clearCategoryFocus cat]\<rparr>)
      else if mc_Location dest = LocationArchive then
        (None, s\<lparr>CategoryArchives := CategoryArchives s @ [clearCategoryFocus cat]\<rparr>)
      else (Some ErrInvalidLocation, s))"

subsection \<open>Reordering\<close>

text \<open>
  \<^verbatim>\<open>reorderTasks\<close>: the map \<^verbatim>\<open>index\<close> sends every ID of \<open>order\<close> to its last position;
  every task is then written to the slot its ID maps to in a slice of zero tasks, and
  that slice is copied over the category's tasks.  The category is written only when
  every task found a slot.
\<close>

fun build_index :: "string list \<Rightarrow> nat \<Rightarrow> (string \<rightharpoonup> nat) \<Rightarrow> (string \<rightharpoonup> nat)" where
  "build_index [] i m = m"
| "build_index (x # xs) i m = build_index xs (Suc i) (m(x \<mapsto> i))"

fun place_tasks :: "(string \<rightharpoonup> nat) \<Rightarrow> Task list \<Rightarrow> Task list \<Rightarrow> error + Task list" where
  "place_tasks index [] reordered = Inr reordered"
| "place_tasks index (t # ts) reordered =
     (case index (ID t) of
        None \<Rightarrow> Inl (ErrInvalidRequest (''missing task id '' @ ID t))
      | Some pos \<Rightarrow> place_tasks index ts (reordered[pos := t]))"

definition reorderTasks :: "Category \<Rightarrow> string list \<Rightarrow> error + Category" where
  "reorderTasks cat order =
     (if length order \<noteq> length (Tasks cat)
      then Inl (ErrInvalidRequest ''task order length mismatch'')
      else case place_tasks (build_index order 0 Map.empty) (Tasks cat)
                  (replicate (length (Tasks cat)) zeroTask) of
             Inl e \<Rightarrow> Inl e
           | Inr reordered \<Rightarrow> Inr (cat\<lparr>Tasks := reordered\<rparr>))"

subsection \<open>The Store's mutating operations\<close>

text \<open>
  Each function returns what the method returns (the error, or the entity on success)
  and \<^verbatim>\<open>s.state\<close> as the call leaves it.  \<open>trim\<close> is the library function
  \<^verbatim>\<open>strings.TrimSpace\<close> and \<open>newid\<close> the string the random generator \<^verbatim>\<open>NewID()\<close>
  returns; both are parameters.
\<close>

definition CreateTask :: "string \<Rightarrow> BoardState \<Rightarrow> CreateTaskRequest \<Rightarrow> (error + Task) \<times> BoardState" where
  "CreateTask newid s req0 =
     (let req = CreateTaskRequest_Normalize req0
      in case CreateTaskRequest_Validate req of
           Some e \<Rightarrow> (Inl e, s)
         | None \<Rightarrow> insertTask newid s req)"

definition UpdateTask :: "BoardState \<Rightarrow> string \<Rightarrow> TaskPatch \<Rightarrow> (error + Task) \<times> BoardState" where
  "UpdateTask s tid patch =
     (case findTask s tid of
        None \<Rightarrow> (Inl ErrTaskNotFound, s)
      | Some loc \<Rightarrow>
         (case task_at s loc of
            None \<Rightarrow> (Inl RuntimePanic, s)
          | Some t0 \<Rightarrow>
             (case TaskPatch_Apply patch t0 of
                (Some e, t1) \<Rightarrow> (Inl e, set_task s loc t1)
              | (None, t1) \<Rightarrow>
                 (let s1 = set_task s loc t1;
                      s2 = (if Kind loc = LocationCategory
                            then normalizeUrgent s1 (CategoryIndex loc)
                                   (if Urgent t1 then ID t1 else [])
                            else s1)
                  in case (if Kind loc = LocationCategory
                           then ensureCapacity (Categories s2 ! CategoryIndex loc)
                           else None) of
                       Some e \<Rightarrow> (Inl e, s2)
                     | None \<Rightarrow>
                        (case task_at s2 loc of
                           Some t \<Rightarrow> (Inr t, s2)
                         | None \<Rightarrow> (Inl RuntimePanic, s2))))))"

definition MoveTask :: "BoardState \<Rightarrow> string \<Rightarrow> MoveTaskRequest \<Rightarrow> (error + Task) \<times> BoardState" where
  "MoveTask s tid dest =
     (case removeTask s tid of
        None \<Rightarrow> (Inl ErrTaskNotFound, s)
      | Some (task, loc, s1) \<Rightarrow>
         (let destCopy =
                (if (mv_Location dest = LocationBackburner \<or> mv_Location dest = LocationArchive)
                    \<and> mv_SourceID dest = [] \<and> Kind loc = LocationCategory
                 then dest\<lparr>mv_SourceID := CatID (Categories s1 ! CategoryIndex loc),
                           mv_Source := CatName (Categories s1 ! CategoryIndex loc)\<rparr>
                 else dest)
          in case placeTask s1 task destCopy of
               (Some e, s2) \<Rightarrow>
                 (case restoreTask s2 task loc of
                    Some s3 \<Rightarrow> (Inl e, s3)
                  | None \<Rightarrow> (Inl RuntimePanic, s2))
             | (None, s2) \<Rightarrow> (Inr task, s2)))"

definition DeleteTask :: "BoardState \<Rightarrow> string \<Rightarrow> error option \<times> BoardState" where
  "DeleteTask s tid =
     (case findTask s tid of
        None \<Rightarrow> (Some ErrTaskNotFound, s)
      | Some loc \<Rightarrow>
         if Kind loc \<noteq> LocationArchive
         then (Some (PlainError (''task '' @ tid @ '' is not in archive'')), s)
         else (case removeTask s tid of
                 None \<Rightarrow> (Some ErrTaskNotFound, s)
               | Some (task, loc', s1) \<Rightarrow> (None, s1)))"

text \<open>
  The three \<^verbatim>\<open>for _, existing := range\<close> loops of \<^verbatim>\<open>RenameCategory\<close> and
  \<^verbatim>\<open>CreateCategory\<close> are \<open>list_ex\<close>; the loop of \<^verbatim>\<open>RenameCategory\<close> and
  \<^verbatim>\<open>ReorderCategoryTasks\<close> that stops at the first active category with the ID is
  \<open>findCategoryIndex\<close> on \<open>Categories\<close>.
\<close>

definition RenameCategory :: "(string \<Rightarrow> string) \<Rightarrow> BoardState \<Rightarrow> string \<Rightarrow> string \<Rightarrow> (error + Category) \<times> BoardState" where
  "RenameCategory trim s cid name0 =
     (let name = trim name0;
          taken = (\<lambda>existing. CatName existing = name \<and> CatID existing \<noteq> cid)
      in if name = [] then (Inl (ErrInvalidRequest ''name cannot be empty''), s)
         else if list_ex taken (Categories s) then (Inl ErrDuplicateCategory, s)
         else if list_ex taken (CategoryBackburner s) then (Inl ErrDuplicateCategory, s)
         else if list_ex taken (CategoryArchives s) then (Inl ErrDuplicateCategory, s)
         else case findCategoryIndex (Categories s) cid of
                None \<Rightarrow> (Inl ErrCategoryNotFound, s)
              | Some i \<Rightarrow>
                 (let c = (Categories s ! i)\<lparr>CatName := name\<rparr>
                  in (Inr c, s\<lparr>Categories := (Categories s)[i := c]\<rparr>)))"

definition CreateCategory :: "(string \<Rightarrow> string) \<Rightarrow> string \<Rightarrow> BoardState \<Rightarrow> string \<Rightarrow> (error + Category) \<times> BoardState" where
  "CreateCategory trim newid s name0 =
     (let name = trim name0;
          taken = (\<lambda>existing. CatName existing = name)
      in if name = [] then (Inl (ErrInvalidRequest ''name required''), s)
         else if list_ex taken (Categories s) then (Inl ErrDuplicateCategory, s)
         else if list_ex taken (CategoryBackburner s) then (Inl ErrDuplicateCategory, s)
         else if list_ex taken (CategoryArchives s) then (Inl ErrDuplicateCategory, s)
         else if length (Categories s) \<ge> CategoryLimit then (Inl ErrCategoryLimit, s)
         else (let cat = \<lparr>CatID = newid, CatName = name, Tasks = []\<rparr>
               in (Inr cat, s\<lparr>Categories := Categories s @ [cat]\<rparr>)))"

text \<open>
  \<^verbatim>\<open>MoveCategory\<close>.  \<^verbatim>\<open>placeCategory\<close> clears the focus through the task slice it shares
  with the caller's \<^verbatim>\<open>cat\<close>, so the category handed back after a move to the backburner
  or the archive has its focus cleared as well.
\<close>

definition MoveCategory :: "BoardState \<Rightarrow> string \<Rightarrow> MoveCategoryRequest \<Rightarrow> (error + Category) \<times> BoardState" where
  "MoveCategory s cid dest0 =
     (let dest = MoveCategoryRequest_Normalize dest0
      in case MoveCategoryRequest_Validate dest of
           Some e \<Rightarrow> (Inl e, s)
         | None \<Rightarrow>
            (case removeCategory s cid of
               None \<Rightarrow> (Inl ErrCategoryNotFound, s)
             | Some (cat, loc, s1) \<Rightarrow>
                (case placeCategory s1 cat dest of
                   (Some e, s2) \<Rightarrow>
                     (case restoreCategory s2 cat loc of
                        Some s3 \<Rightarrow> (Inl e, s3)
                      | None \<Rightarrow> (Inl RuntimePanic, s2))
                 | (None, s2) \<Rightarrow>
                     (Inr (if mc_Location dest = LocationCategoryBoard then cat
                           else clearCategoryFocus cat), s2))))"

definition ReorderCategoryTasks :: "BoardState \<Rightarrow> string \<Rightarrow> string list \<Rightarrow> (error + Category) \<times> BoardState" where
  "ReorderCategoryTasks s cid order =
     (case findCategoryIndex (Categories s) cid of
        None \<Rightarrow> (Inl ErrCategoryNotFound, s)
      | Some i \<Rightarrow>
         (case reorderTasks (Categories s ! i) order of
            Inl e \<Rightarrow> (Inl e, s)
          | Inr cat \<Rightarrow> (Inr cat, s\<lparr>Categories := (Categories s)[i := cat]\<rparr>)))"

definition SetFocused :: "BoardState \<Rightarrow> string \<Rightarrow> (error + Task) \<times> BoardState" where
  "SetFocused s taskID =
     (if taskID = [] then (Inr zeroTask, clearFocus s)
      else case findTask s taskID of
             None \<Rightarrow> (Inl ErrTaskNotFound, s)
           | Some loc \<Rightarrow>
              (let s1 = clearFocus s
               in case task_at s1 loc of
                    None \<Rightarrow> (Inl RuntimePanic, s1)
                  | Some t \<Rightarrow>
                     (let t' = t\<lparr>Focused := True\<rparr> in (Inr t', set_task s1 loc t'))))"

subsection \<open>Observations on a board\<close>

text \<open>
  The IDs of the tasks \<^verbatim>\<open>findTask\<close> scans (active categories, backburner, archive) and
  of the tasks nested in the parked categories.
\<close>

definition task_ids :: "Task list \<Rightarrow> string list" where
  "task_ids ts = map ID ts"

definition scanned_task_ids :: "BoardState \<Rightarrow> string list" where
  "scanned_task_ids s =
     concat (map (\<lambda>c. task_ids (Tasks c)) (Categories s))
       @ task_ids (Backburner s) @ task_ids (Archives s)"

definition parked_task_ids :: "BoardState \<Rightarrow> string list" where
  "parked_task_ids s =
     concat (map (\<lambda>c. task_ids (Tasks c)) (CategoryBackburner s @ CategoryArchives s))"

text \<open>The IDs and names of categories.\<close>

definition cat_ids :: "Category list \<Rightarrow> string list" where
  "cat_ids cs = map CatID cs"

definition category_names :: "BoardState \<Rightarrow> string list" where
  "category_names s = map CatName (Categories s @ CategoryBackburner s @ CategoryArchives s)"

text \<open>
  The duplicate check of \<^verbatim>\<open>RenameCategory\<close> over the three category containers: some
  category with another ID already has the name.
\<close>

definition name_taken :: "BoardState \<Rightarrow> string \<Rightarrow> string \<Rightarrow> bool" where
  "name_taken s cid name =
     list_ex (\<lambda>c. CatName c = name \<and> CatID c \<noteq> cid)
       (Categories s @ CategoryBackburner s @ CategoryArchives s)"

subsection \<open>Capacity\<close>

text \<open>
  The points a category holds, the column capacity on every active category, and the
  size range on every task of the board (\<open>0\<close> is the size of the zero task).
\<close>

definition category_sum :: "Category \<Rightarrow> int" where
  "category_sum cat = sum_list (map Size (Tasks cat))"

definition capacity_ok :: "BoardState \<Rightarrow> bool" where
  "capacity_ok s = list_all (\<lambda>c. category_sum c \<le> ColumnCapacity) (Categories s)"

definition size_ok :: "Task \<Rightarrow> bool" where
  "size_ok t = (0 \<le> Size t \<and> Size t \<le> 5)"

definition sizes_ok :: "BoardState \<Rightarrow> bool" where
  "sizes_ok s =
     (list_all (\<lambda>c. list_all size_ok (Tasks c))
        (Categories s @ CategoryBackburner s @ CategoryArchives s)
      \<and> list_all size_ok (Backburner s) \<and> list_all size_ok (Archives s))"

text \<open>The size range on one slice of tasks and on one slice of categories.\<close>

definition tasks_ok :: "Task list \<Rightarrow> bool" where
  "tasks_ok ts = (\<forall>t \<in> set ts. size_ok t)"

definition cats_ok :: "Category list \<Rightarrow> bool" where
  "cats_ok cs = (\<forall>c \<in> set cs. tasks_ok (Tasks c))"

definition active_sizes_ok :: "BoardState \<Rightarrow> bool" where
  "active_sizes_ok s = (\<forall>c \<in> set (Categories s). \<forall>t \<in> set (Tasks c). size_ok t)"

subsection \<open>Trimming\<close>

text \<open>
  \<^verbatim>\<open>strings.TrimSpace\<close> on a string of ASCII bytes: leading and trailing tab, line feed,
  vertical tab, form feed, carriage return and space are dropped.  (The Go function
  also drops the white space code points beyond ASCII.)  The theorems below hold for
  every \<open>trim\<close>; this function instantiates it at concrete ASCII inputs.
\<close>

definition asciiSpace :: "char \<Rightarrow> bool" where
  "asciiSpace c = (c \<in> set [CHR 0x09, CHR 0x0A, CHR 0x0B, CHR 0x0C, CHR 0x0D, CHR '' ''])"

definition TrimSpace :: "string \<Rightarrow> string" where
  "TrimSpace str = rev (dropWhile asciiSpace (rev (dropWhile asciiSpace str)))"

subsection \<open>The operations as one step\<close>

text \<open>
  The nine mutating methods the HTTP handlers of \<^verbatim>\<open>server.go\<close> call, as one datatype,
  and the error (if any) and in-memory board a call ends with.
\<close>

datatype operation =
    OpCreateTask CreateTaskRequest
  | OpUpdateTask string TaskPatch
  | OpMoveTask string MoveTaskRequest
  | OpDeleteTask string
  | OpCreateCategory string
  | OpRenameCategory string string
  | OpMoveCategory string MoveCategoryRequest
  | OpReorderCategoryTasks string "string list"
  | OpSetFocused string

definition outcome :: "(error + 'a) \<times> BoardState \<Rightarrow> error option \<times> BoardState" where
  "outcome r = (case fst r of Inl e \<Rightarrow> Some e | Inr v \<Rightarrow> None, snd r)"

fun perform :: "(string \<Rightarrow> string) \<Rightarrow> string \<Rightarrow> BoardState \<Rightarrow> operation \<Rightarrow> error option \<times> BoardState" where
  "perform trim newid s (OpCreateTask req) = outcome (CreateTask newid s req)"
| "perform trim newid s (OpUpdateTask tid patch) = outcome (UpdateTask s tid patch)"
| "perform trim newid s (OpMoveTask tid dest) = outcome (MoveTask s tid dest)"
| "perform trim newid s (OpDeleteTask tid) = DeleteTask s tid"
| "perform trim newid s (OpCreateCategory name) = outcome (CreateCategory trim newid s name)"
| "perform trim newid s (OpRenameCategory cid name) = outcome (RenameCategory trim s cid name)"
| "perform trim newid s (OpMoveCategory cid dest) = outcome (MoveCategory s cid dest)"
| "perform trim newid s (OpReorderCategoryTasks cid order) =
     outcome (ReorderCategoryTasks s cid order)"
| "perform trim newid s (OpSetFocused tid) = outcome (SetFocused s tid)"

subsection \<open>Example boards\<close>

definition mkTask :: "string \<Rightarrow> int \<Rightarrow> Task" where
  "mkTask tid sz = zeroTask\<lparr>ID := tid, Name := tid, State := ''todo'', Size := sz\<rparr>"

definition noPatch :: TaskPatch where
  "noPatch = \<lparr>p_Name = None, p_Description = None, p_Notes = None, p_State = None,
     p_Size = None, p_Links = None, p_Checklist = None, p_Urgent = None\<rparr>"

definition moveTo :: "string \<Rightarrow> string \<Rightarrow> MoveTaskRequest" where
  "moveTo l cid = \<lparr>mv_Location = l, mv_CategoryID = cid, mv_Position = None,
     mv_SourceID = [], mv_Source = []\<rparr>"

text \<open>
  Two active categories (the first with an urgent task), one task in the backburner,
  one in the archive, and a parked category that holds six points.
\<close>

definition boardA :: BoardState where
  "boardA =
     \<lparr>Categories =
        [\<lparr>CatID = ''c1'', CatName = ''Alpha'',
          Tasks = [(mkTask ''t1'' 2)\<lparr>Urgent := True\<rparr>, mkTask ''t2'' 2]\<rparr>,
         \<lparr>CatID = ''c2'', CatName = ''Beta'', Tasks = [mkTask ''t3'' 5]\<rparr>],
      Backburner = [mkTask ''t4'' 1],
      Archives = [mkTask ''t5'' 1],
      CategoryBackburner =
        [\<lparr>CatID = ''c3'', CatName = ''Gamma'', Tasks = [mkTask ''t6'' 3, mkTask ''t7'' 3]\<rparr>],
      CategoryArchives = []\<rparr>"

text \<open>A board with five active categories and one parked category.\<close>

definition boardFull :: BoardState where
  "boardFull =
     \<lparr>Categories =
        [\<lparr>CatID = ''d1'', CatName = ''One'', Tasks = [mkTask ''u1'' 1]\<rparr>,
         \<lparr>CatID = ''d2'', CatName = ''Two'', Tasks = []\<rparr>,
         \<lparr>CatID = ''d3'', CatName = ''Three'', Tasks = []\<rparr>,
         \<lparr>CatID = ''d4'', CatName = ''Four'', Tasks = []\<rparr>,
         \<lparr>CatID = ''d5'', CatName = ''Five'', Tasks = []\<rparr>],
      Backburner = [],
      Archives = [],
      CategoryBackburner =
        [\<lparr>CatID = ''d6'', CatName = ''Six'', Tasks = [mkTask ''u6'' 3, mkTask ''u7'' 3]\<rparr>],
      CategoryArchives = []\<rparr>"

text \<open>
  \<open>boardA\<close> after a \<open>CreateTask\<close> whose request carries the ID of a task that the
  category already holds: \<^verbatim>\<open>insertTask\<close> keeps a caller-supplied ID as it is.
\<close>

definition dupRequest :: CreateTaskRequest where
  "dupRequest = \<lparr>ct_Location = ''category'', ct_CategoryID = ''c1'', ct_Position = None,
     ct_Task = mkTask ''t2'' 1\<rparr>"

definition boardDup :: BoardState where
  "boardDup = snd (CreateTask ''n1'' boardA dupRequest)"

text \<open>
  \<open>boardDup\<close> after three more calls: a reordering of \<open>c1\<close> whose order names an ID of no
  task, which leaves the zero task (its ID is the empty string) in the category; the
  move of \<open>c1\<close> to the category backburner; and the focus set on \<open>t3\<close>.
\<close>

definition boardZeroParked :: BoardState where
  "boardZeroParked =
     snd (SetFocused
       (snd (MoveCategory
          (snd (ReorderCategoryTasks boardDup ''c1'' [''t1'', ''t2'', ''zz'']))
          ''c1'' \<lparr>mc_Location = ''backburner'', mc_Position = None\<rparr>))
       ''t3'')"

text \<open>Requests on \<open>boardA\<close>: a two-point task for the category \<open>c1\<close>.\<close>

definition newTaskRequest :: CreateTaskRequest where
  "newTaskRequest = \<lparr>ct_Location = ''category'', ct_CategoryID = ''c1'', ct_Position = None,
     ct_Task = mkTask ''t9'' 2\<rparr>"

section \<open>Lookup\<close>

lemma find_task_index_Some:
  "find_task_index ts tid = Some i \<Longrightarrow> i < length ts \<and> ID (ts ! i) = tid"
  by (induction ts arbitrary: i) (auto split: if_splits)

lemma find_task_index_None:
  "(find_task_index ts tid = None) = (tid \<notin> set (task_ids ts))"
  by (induction ts) (auto simp: task_ids_def)

lemma find_in_categories_Some:
  "find_in_categories cs tid = Some (ci, ti) \<Longrightarrow>
     ci < length cs \<and> ti < length (Tasks (cs ! ci)) \<and> ID (Tasks (cs ! ci) ! ti) = tid"
proof (induction cs arbitrary: ci)
  case Nil
  then show ?case by simp
next
  case (Cons c cs)
  show ?case
  proof (cases "find_task_index (Tasks c) tid")
    case None
    with Cons.prems obtain cj where "find_in_categories cs tid = Some (cj, ti)" "ci = Suc cj"
      by auto
    with Cons.IH show ?thesis by simp
  next
    case (Some i)
    with Cons.prems have "ci = 0" "ti = i" by auto
    with Some show ?thesis by (simp add: find_task_index_Some)
  qed
qed

lemma find_in_categories_None:
  "(find_in_categories cs tid = None) =
     (tid \<notin> set (concat (map (\<lambda>c. task_ids (Tasks c)) cs)))"
  by (induction cs) (auto simp: find_task_index_None [symmetric] split: option.splits)

lemma findTask_None:
  "(findTask s tid = None) = (tid \<notin> set (scanned_task_ids s))"
proof -
  have "(findTask s tid = None) =
          (find_in_categories (Categories s) tid = None
           \<and> find_task_index (Backburner s) tid = None
           \<and> find_task_index (Archives s) tid = None)"
    by (simp add: findTask_def split: option.splits)
  then show ?thesis
    by (simp add: find_in_categories_None find_task_index_None scanned_task_ids_def)
qed

lemma findCategoryIndex_Some:
  "findCategoryIndex cs cid = Some i \<Longrightarrow> i < length cs \<and> CatID (cs ! i) = cid"
  by (induction cs arbitrary: i) (auto split: if_splits)

lemma findCategoryIndex_None:
  "(findCategoryIndex cs cid = None) = (cid \<notin> set (cat_ids cs))"
  by (induction cs) (auto simp: cat_ids_def)

lemma task_at_Some_iff:
  "(\<exists>t. task_at s loc = Some t) =
     (if Kind loc = LocationCategory
      then CategoryIndex loc < length (Categories s)
           \<and> TaskIndex loc < length (Tasks (Categories s ! CategoryIndex loc))
      else if Kind loc = LocationBackburner then TaskIndex loc < length (Backburner s)
      else if Kind loc = LocationArchive then TaskIndex loc < length (Archives s)
      else False)"
  by (simp add: task_at_def nth_opt_def)

section \<open>Slices, capacity and placing\<close>

lemma remove_insert_at: "i \<le> length xs \<Longrightarrow> remove_at i (insert_at i x xs) = xs"
  by (simp add: remove_at_def insert_at_def min_def)

lemma insert_remove_at: "i < length xs \<Longrightarrow> insert_at i (xs ! i) (remove_at i xs) = xs"
  by (simp add: remove_at_def insert_at_def min_def id_take_nth_drop [symmetric])

lemma length_remove_at: "i < length xs \<Longrightarrow> length (remove_at i xs) = length xs - 1"
  by (simp add: remove_at_def)

lemma length_insert_at: "length (insert_at i x xs) = Suc (length xs)"
  by (simp add: insert_at_def)

lemma nth_insert_at: "i \<le> length xs \<Longrightarrow> insert_at i x xs ! i = x"
  by (simp add: insert_at_def nth_append)

lemma insertIndex_le: "insertIndex pos n \<le> n"
  by (auto simp: insertIndex_def split: option.splits)

lemma insertTask_error_unchanged:
  "insertTask newid s req = (Inl e, s') \<Longrightarrow> s' = s"
  by (auto simp: insertTask_def Let_def remove_insert_at insertIndex_le
           split: sum.splits option.splits if_splits)

lemma capacity_loop_err: "capacity_loop tot ts = Some e \<Longrightarrow> e = ErrCapacityExceeded"
  by (induction ts arbitrary: tot) (auto simp: Let_def split: if_splits)

lemma ensureCapacity_err: "ensureCapacity c = Some e \<Longrightarrow> e = ErrCapacityExceeded"
  by (simp add: ensureCapacity_def capacity_loop_err)

lemma length_normalizeUrgent [simp]:
  "length (Categories (normalizeUrgent s idx u)) = length (Categories s)"
  by (simp add: normalizeUrgent_def)

lemma normalizeUrgent_other [simp]:
  "Backburner (normalizeUrgent s idx u) = Backburner s"
  "Archives (normalizeUrgent s idx u) = Archives s"
  "CategoryBackburner (normalizeUrgent s idx u) = CategoryBackburner s"
  "CategoryArchives (normalizeUrgent s idx u) = CategoryArchives s"
  by (simp_all add: normalizeUrgent_def)

lemma placeTask_capacity:
  assumes "placeTask s task dest = (Some ErrCapacityExceeded, s2)"
  shows "\<exists>idx u. idx < length (Categories s) \<and> s2 = normalizeUrgent s idx u"
proof -
  let ?d = "MoveTaskRequest_Normalize dest"
  from assms have v: "MoveTaskRequest_Validate ?d = None"
    by (auto simp: placeTask_def Let_def MoveTaskRequest_Validate_def split: option.splits if_splits)
  from assms v have loc: "mv_Location ?d = LocationCategory"
    by (auto simp: placeTask_def Let_def split: option.splits if_splits)
  from assms v loc obtain idx where idx: "findCategoryIndex (Categories s) (mv_CategoryID ?d) = Some idx"
    by (auto simp: placeTask_def Let_def split: option.splits if_splits)
  then have lt: "idx < length (Categories s)" by (simp add: findCategoryIndex_Some)
  define u where "u = (if Urgent task then ID task else [])"
  define s1 where "s1 = normalizeUrgent s idx u"
  define i where "i = insertIndex (mv_Position ?d) (length (Tasks (Categories s ! idx)))"
  have len: "length (Tasks (Categories s1 ! idx)) = length (Tasks (Categories s ! idx))"
    using lt by (simp add: s1_def normalizeUrgent_def)
  have ile: "i \<le> length (Tasks (Categories s1 ! idx))"
    unfolding len i_def by (rule insertIndex_le)
  from assms v loc idx have
    "s2 = s1\<lparr>Categories := (Categories s1)[idx :=
             (Categories s1 ! idx)\<lparr>Tasks :=
                remove_at i (insert_at i (task\<lparr>Focused := False, SourceID := [], Source := []\<rparr>)
                  (Tasks (Categories s1 ! idx)))\<rparr>]\<rparr>"
    by (auto simp: placeTask_def Let_def s1_def u_def i_def split: option.splits if_splits)
  with ile have "s2 = s1" by (simp add: remove_insert_at)
  with lt show ?thesis unfolding s1_def by blast
qed


lemma findTask_cases:
  assumes "findTask s tid = Some loc"
  obtains
    (category) "Kind loc = LocationCategory" "CategoryIndex loc < length (Categories s)"
       "TaskIndex loc < length (Tasks (Categories s ! CategoryIndex loc))"
  | (backburner) "Kind loc = LocationBackburner" "TaskIndex loc < length (Backburner s)"
  | (archive) "Kind loc = LocationArchive" "TaskIndex loc < length (Archives s)"
proof (cases "find_in_categories (Categories s) tid")
  case (Some p)
  obtain ci ti where p: "p = (ci, ti)" by (cases p)
  with Some assms have "loc = \<lparr>Kind = LocationCategory, CategoryIndex = ci, TaskIndex = ti\<rparr>"
    by (simp add: findTask_def)
  with find_in_categories_Some [of "Categories s" tid ci ti] Some p show ?thesis
    by (intro category) simp_all
next
  case None
  note nc = this
  show ?thesis
  proof (cases "find_task_index (Backburner s) tid")
    case (Some i)
    with nc assms have "loc = \<lparr>Kind = LocationBackburner, CategoryIndex = 0, TaskIndex = i\<rparr>"
      by (simp add: findTask_def)
    with find_task_index_Some [OF Some] show ?thesis
      by (intro backburner) simp_all
  next
    case None
    with nc assms obtain i where i: "find_task_index (Archives s) tid = Some i"
      and "loc = \<lparr>Kind = LocationArchive, CategoryIndex = 0, TaskIndex = i\<rparr>"
      by (auto simp: findTask_def split: option.splits)
    with find_task_index_Some [OF i] show ?thesis
      by (intro archive) simp_all
  qed
qed

lemma location_kinds_distinct [simp]:
  "LocationCategory \<noteq> LocationBackburner" "LocationCategory \<noteq> LocationArchive"
  "LocationBackburner \<noteq> LocationArchive" "LocationBackburner \<noteq> LocationCategory"
  "LocationArchive \<noteq> LocationCategory" "LocationArchive \<noteq> LocationBackburner"
  by (simp_all add: LocationCategory_def LocationBackburner_def LocationArchive_def)

section \<open>Tasks nested in parked categories are not found\<close>

text \<open>
  C9, as the claim states it, fails for the empty task ID.  A reordering with duplicate
  task IDs leaves a zero task, whose ID is the empty string, and \<open>MoveCategory\<close> parks
  the category that holds it; the empty ID then occurs only inside a parked category,
  but \<^verbatim>\<open>SetFocused("")\<close> is the request to clear the focus: it succeeds and takes the
  focus off \<open>t3\<close>.
\<close>

theorem parked_tasks_not_found_counterexample:
  "fst (outcome (ReorderCategoryTasks boardDup ''c1'' [''t1'', ''t2'', ''zz''])) = None
   \<and> fst (outcome (MoveCategory
          (snd (ReorderCategoryTasks boardDup ''c1'' [''t1'', ''t2'', ''zz'']))
          ''c1'' \<lparr>mc_Location = ''backburner'', mc_Position = None\<rparr>)) = None
   \<and> [] \<in> set (parked_task_ids boardZeroParked)
   \<and> [] \<notin> set (scanned_task_ids boardZeroParked)
   \<and> fst (SetFocused boardZeroParked []) = Inr zeroTask
   \<and> task_at boardZeroParked \<lparr>Kind = ''category'', CategoryIndex = 0, TaskIndex = 0\<rparr>
        = Some ((mkTask ''t3'' 5)\<lparr>Focused := True\<rparr>)
   \<and> task_at (snd (SetFocused boardZeroParked []))
        \<lparr>Kind = ''category'', CategoryIndex = 0, TaskIndex = 0\<rparr> = Some (mkTask ''t3'' 5)"
  by code_simp

text \<open>
  C9, amended.  \<^verbatim>\<open>findTask\<close> scans the active categories, the backburner and the archive
  only.  For a task ID \<open>tid\<close> that occurs inside a category of \<open>CategoryBackburner\<close> or
  \<open>CategoryArchives\<close> and nowhere in the scanned containers, \<open>UpdateTask\<close>, \<open>MoveTask\<close>
  and \<open>DeleteTask\<close> return \<open>ErrTaskNotFound\<close> and leave the board as it was; so does
  \<open>SetFocused\<close> when \<open>tid\<close> is not the empty string, and for the empty string
  \<open>SetFocused\<close> succeeds, returns the zero task and clears the focus of the board.
\<close>

theorem parked_tasks_not_found:
  assumes "tid \<in> set (parked_task_ids s)"
    and "tid \<notin> set (scanned_task_ids s)"
  shows "UpdateTask s tid patch = (Inl ErrTaskNotFound, s)
       \<and> MoveTask s tid dest = (Inl ErrTaskNotFound, s)
       \<and> DeleteTask s tid = (Some ErrTaskNotFound, s)
       \<and> SetFocused s tid = (if tid = [] then (Inr zeroTask, clearFocus s)
                               else (Inl ErrTaskNotFound, s))"
proof -
  from assms(2) have "findTask s tid = None"
    by (simp add: findTask_None)
  then show ?thesis
    by (simp add: UpdateTask_def MoveTask_def DeleteTask_def SetFocused_def removeTask_def)
qed

theorem parked_tasks_not_found_witness:
  "''t6'' \<in> set (parked_task_ids boardA)
   \<and> ''t6'' \<notin> set (scanned_task_ids boardA)
   \<and> UpdateTask boardA ''t6'' (noPatch\<lparr>p_Name := Some ''x''\<rparr>) = (Inl ErrTaskNotFound, boardA)
   \<and> MoveTask boardA ''t6'' (moveTo ''archive'' []) = (Inl ErrTaskNotFound, boardA)
   \<and> DeleteTask boardA ''t6'' = (Some ErrTaskNotFound, boardA)
   \<and> SetFocused boardA ''t6'' = (Inl ErrTaskNotFound, boardA)
   \<and> [] \<in> set (parked_task_ids boardZeroParked)
   \<and> [] \<notin> set (scanned_task_ids boardZeroParked)
   \<and> UpdateTask boardZeroParked [] noPatch = (Inl ErrTaskNotFound, boardZeroParked)
   \<and> MoveTask boardZeroParked [] (moveTo ''archive'' []) = (Inl ErrTaskNotFound, boardZeroParked)
   \<and> DeleteTask boardZeroParked [] = (Some ErrTaskNotFound, boardZeroParked)
   \<and> SetFocused boardZeroParked [] = (Inr zeroTask, clearFocus boardZeroParked)"
proof -
  have h1: "''t6'' \<in> set (parked_task_ids boardA)"
    by (simp add: parked_task_ids_def task_ids_def boardA_def mkTask_def zeroTask_def)
  have h2: "''t6'' \<notin> set (scanned_task_ids boardA)"
    by (simp add: scanned_task_ids_def task_ids_def boardA_def mkTask_def zeroTask_def)
  have k1: "[] \<in> set (parked_task_ids boardZeroParked)" by code_simp
  have k2: "[] \<notin> set (scanned_task_ids boardZeroParked)" by code_simp
  from parked_tasks_not_found [OF h1 h2] parked_tasks_not_found [OF k1 k2] h1 h2 k1 k2
  show ?thesis by simp
qed

section \<open>Renaming a parked category\<close>

text \<open>
  C10, as the claim states it, fails: for a category ID that occurs only in
  \<open>CategoryBackburner\<close>, a new name that is empty after trimming collides with no
  category's name, and \<open>RenameCategory\<close> returns \<open>ErrInvalidRequest\<close>, neither
  \<open>ErrCategoryNotFound\<close> nor \<open>ErrDuplicateCategory\<close>.
\<close>

theorem rename_parked_category_counterexample:
  "''c3'' \<in> set (cat_ids (CategoryBackburner boardA @ CategoryArchives boardA))
   \<and> ''c3'' \<notin> set (cat_ids (Categories boardA))
   \<and> TrimSpace ''  '' \<notin> set (category_names boardA)
   \<and> RenameCategory TrimSpace boardA ''c3'' ''  ''
       = (Inl (ErrInvalidRequest ''name cannot be empty''), boardA)"
  by (simp add: RenameCategory_def TrimSpace_def asciiSpace_def cat_ids_def category_names_def
        boardA_def)

text \<open>
  C10, amended.  \<open>RenameCategory\<close> renames only categories of the active board: for a
  category ID that occurs in \<open>CategoryBackburner\<close> or \<open>CategoryArchives\<close> and not in
  \<open>Categories\<close>, the call changes nothing and returns \<open>ErrInvalidRequest\<close> when the
  trimmed name is empty, otherwise \<open>ErrDuplicateCategory\<close> when a category with another
  ID in any of the three containers has the trimmed name, otherwise
  \<open>ErrCategoryNotFound\<close>.
\<close>

theorem rename_parked_category:
  assumes "cid \<in> set (cat_ids (CategoryBackburner s @ CategoryArchives s))"
    and "cid \<notin> set (cat_ids (Categories s))"
  shows "RenameCategory trim s cid name =
           (Inl (if trim name = [] then ErrInvalidRequest ''name cannot be empty''
                 else if name_taken s cid (trim name) then ErrDuplicateCategory
                 else ErrCategoryNotFound), s)"
proof -
  from assms(2) have "findCategoryIndex (Categories s) cid = None"
    by (simp add: findCategoryIndex_None)
  then show ?thesis
    by (simp add: RenameCategory_def name_taken_def Let_def)
qed

theorem rename_parked_category_witness:
  "''c3'' \<in> set (cat_ids (CategoryBackburner boardA @ CategoryArchives boardA))
   \<and> ''c3'' \<notin> set (cat_ids (Categories boardA))
   \<and> RenameCategory TrimSpace boardA ''c3'' '' Delta'' = (Inl ErrCategoryNotFound, boardA)
   \<and> RenameCategory TrimSpace boardA ''c3'' ''Alpha '' = (Inl ErrDuplicateCategory, boardA)"
proof -
  have h1: "''c3'' \<in> set (cat_ids (CategoryBackburner boardA @ CategoryArchives boardA))"
    by (simp add: cat_ids_def boardA_def)
  have h2: "''c3'' \<notin> set (cat_ids (Categories boardA))"
    by (simp add: cat_ids_def boardA_def)
  have t1: "TrimSpace '' Delta'' = ''Delta''" and t2: "TrimSpace ''Alpha '' = ''Alpha''"
    by (simp_all add: TrimSpace_def asciiSpace_def)
  have n1: "\<not> name_taken boardA ''c3'' ''Delta''"
    by (simp add: name_taken_def boardA_def)
  have n2: "name_taken boardA ''c3'' ''Alpha''"
    by (simp add: name_taken_def boardA_def)
  from rename_parked_category [OF h1 h2, of TrimSpace "'' Delta''"]
       rename_parked_category [OF h1 h2, of TrimSpace "''Alpha ''"]
       h1 h2 t1 t2 n1 n2
  show ?thesis by simp
qed

section \<open>A move that fails the capacity check\<close>

lemma find_task_index_cong:
  "map ID ts' = map ID ts \<Longrightarrow> find_task_index ts' tid = find_task_index ts tid"
proof (induction ts arbitrary: ts')
  case Nil
  then show ?case by simp
next
  case (Cons t ts)
  then obtain t' ts'' where "ts' = t' # ts''" "ID t' = ID t" "map ID ts'' = map ID ts"
    by (cases ts') auto
  with Cons.IH [of ts''] show ?case by simp
qed

lemma find_in_categories_cong:
  "map (\<lambda>c. map ID (Tasks c)) cs' = map (\<lambda>c. map ID (Tasks c)) cs \<Longrightarrow>
     find_in_categories cs' tid = find_in_categories cs tid"
proof (induction cs arbitrary: cs')
  case Nil
  then show ?case by simp
next
  case (Cons c cs)
  then obtain c' cs'' where c: "cs' = c' # cs''" "map ID (Tasks c') = map ID (Tasks c)"
    "map (\<lambda>c. map ID (Tasks c)) cs'' = map (\<lambda>c. map ID (Tasks c)) cs"
    by (cases cs') auto
  from Cons.IH [OF c(3)] find_task_index_cong [OF c(2), of tid] c(1) show ?case
    by (simp split: option.splits)
qed

lemma findTask_cong:
  assumes "map (\<lambda>c. map ID (Tasks c)) (Categories s') = map (\<lambda>c. map ID (Tasks c)) (Categories s)"
    and "map ID (Backburner s') = map ID (Backburner s)"
    and "map ID (Archives s') = map ID (Archives s)"
  shows "findTask s' tid = findTask s tid"
  using find_in_categories_cong [OF assms(1), of tid] find_task_index_cong [OF assms(2), of tid]
    find_task_index_cong [OF assms(3), of tid]
  by (simp add: findTask_def split: option.splits)

lemma ids_normalizeUrgent:
  "map (\<lambda>c. map ID (Tasks c)) (Categories (normalizeUrgent s i u))
     = map (\<lambda>c. map ID (Tasks c)) (Categories s)"
proof (cases "i < length (Categories s)")
  case True
  then show ?thesis
    by (simp add: normalizeUrgent_def map_update list_update_same_conv comp_def)
next
  case False
  then show ?thesis by (simp add: normalizeUrgent_def list_update_beyond)
qed

lemma insert_at_append: "length xs \<le> i \<Longrightarrow> xs @ [x] = insert_at i x xs"
  by (simp add: insert_at_def)

lemma map_insert_at: "map f (insert_at i x xs) = insert_at i (f x) (map f xs)"
  by (simp add: insert_at_def take_map drop_map)

lemma map_remove_at: "map f (remove_at i xs) = remove_at i (map f xs)"
  by (simp add: remove_at_def take_map drop_map)

lemma insert_remove_at_eq:
  "i < length xs \<Longrightarrow> y = xs ! i \<Longrightarrow> insert_at i y (remove_at i xs) = xs"
  by (simp add: insert_remove_at)

lemma failed_move_same_ids:
  assumes rm: "removeTask s tid = Some (task, loc, s1)"
    and rs: "restoreTask (normalizeUrgent s1 idx u) task loc = Some s'"
  shows "findTask s' tid' = findTask s tid'"
proof -
  let ?s2 = "normalizeUrgent s1 idx u"
  from rm have loc: "findTask s tid = Some loc" and at: "task_at s loc = Some task"
    by (auto simp: removeTask_def split: option.splits)
  from loc show ?thesis
  proof (cases rule: findTask_cases)
    case category
    let ?ci = "CategoryIndex loc" and ?ti = "TaskIndex loc"
    let ?c = "Categories s ! ?ci"
    let ?ids = "\<lambda>b. map (\<lambda>c. map ID (Tasks c)) (Categories b)"
    from at category have task: "task = Tasks ?c ! ?ti" by (simp add: task_at_def nth_opt_def)
    from rm loc category have s1: "s1 = s\<lparr>Categories := (Categories s)[?ci :=
        ?c\<lparr>Tasks := remove_at ?ti (Tasks ?c)\<rparr>]\<rparr>"
      by (auto simp: removeTask_def split: option.splits)
    have ids1: "?ids s1 = (?ids s)[?ci := remove_at ?ti (map ID (Tasks ?c))]"
      by (simp add: s1 map_update map_remove_at)
    have ids2: "?ids ?s2 = ?ids s1" by (rule ids_normalizeUrgent)
    have len2: "length (Categories ?s2) = length (Categories s)" by (simp add: s1)
    let ?c2 = "Categories ?s2 ! ?ci"
    have c2: "map ID (Tasks ?c2) = remove_at ?ti (map ID (Tasks ?c))"
    proof -
      from category len2 have "map ID (Tasks ?c2) = ?ids ?s2 ! ?ci" by simp
      also have "\<dots> = ?ids s1 ! ?ci" by (simp only: ids2)
      also from category have "\<dots> = remove_at ?ti (map ID (Tasks ?c))" by (simp add: ids1)
      finally show ?thesis .
    qed
    then have "length (Tasks ?c2) = length (Tasks ?c) - 1"
      using category by (metis length_map length_remove_at)
    with category have le: "?ti \<le> length (Tasks ?c2)" by simp
    from rs category len2 have s': "s' = ?s2\<lparr>Categories := (Categories ?s2)[?ci :=
        ?c2\<lparr>Tasks := insert_at ?ti task (Tasks ?c2)\<rparr>]\<rparr>"
      using le insert_at_append [of "Tasks ?c2" ?ti task]
      by (auto simp: restoreTask_def nth_opt_def split: if_splits)
    have "map ID (insert_at ?ti task (Tasks ?c2)) = map ID (Tasks ?c)"
      using category task by (simp add: map_insert_at c2 insert_remove_at_eq)
    then have "?ids s' = (?ids ?s2)[?ci := map ID (Tasks ?c)]"
      by (simp add: s' map_update)
    also have "\<dots> = (?ids s)[?ci := map ID (Tasks ?c)]"
      by (simp only: ids2 ids1 list_update_overwrite)
    also have "\<dots> = ?ids s"
      using category by (simp add: list_update_same_conv)
    finally have "?ids s' = ?ids s" .
    moreover have "Backburner s' = Backburner s" "Archives s' = Archives s"
      by (simp_all add: s' s1)
    ultimately show ?thesis by (intro findTask_cong) simp_all
  next
    case backburner
    from rm loc backburner have s1: "s1 = s\<lparr>Backburner := remove_at (TaskIndex loc) (Backburner s)\<rparr>"
      by (auto simp: removeTask_def split: option.splits)
    from at backburner have nth: "task = Backburner s ! TaskIndex loc"
      by (simp add: task_at_def nth_opt_def)
    from rs backburner have s': "s' = ?s2\<lparr>Backburner := insert_at (TaskIndex loc) task (Backburner ?s2)\<rparr>"
      by (auto simp: restoreTask_def split: if_splits)
    from backburner nth have "Backburner s' = Backburner s"
      by (simp add: s' s1 insert_remove_at_eq)
    moreover have "Archives s' = Archives s" by (simp add: s' s1)
    moreover have "map (\<lambda>c. map ID (Tasks c)) (Categories s') = map (\<lambda>c. map ID (Tasks c)) (Categories s)"
      by (simp add: s' ids_normalizeUrgent) (simp add: s1)
    ultimately show ?thesis by (intro findTask_cong) simp_all
  next
    case archive
    from rm loc archive have s1: "s1 = s\<lparr>Archives := remove_at (TaskIndex loc) (Archives s)\<rparr>"
      by (auto simp: removeTask_def split: option.splits)
    from at archive have nth: "task = Archives s ! TaskIndex loc"
      by (simp add: task_at_def nth_opt_def)
    from rs archive have s': "s' = ?s2\<lparr>Archives := insert_at (TaskIndex loc) task (Archives ?s2)\<rparr>"
      by (auto simp: restoreTask_def split: if_splits)
    from archive nth have "Archives s' = Archives s"
      by (simp add: s' s1 insert_remove_at_eq)
    moreover have "Backburner s' = Backburner s" by (simp add: s' s1)
    moreover have "map (\<lambda>c. map ID (Tasks c)) (Categories s') = map (\<lambda>c. map ID (Tasks c)) (Categories s)"
      by (simp add: s' ids_normalizeUrgent) (simp add: s1)
    ultimately show ?thesis by (intro findTask_cong) simp_all
  qed
qed

lemma restored_at_address:
  assumes mv: "MoveTask s tid dest = (Inl ErrCapacityExceeded, s')"
    and loc: "findTask s tid = Some loc"
  shows "\<exists>task. task_at s loc = Some task \<and> task_at s' loc = Some task"
proof -
  from mv loc obtain task s1 where rm: "removeTask s tid = Some (task, loc, s1)"
    by (auto simp: MoveTask_def removeTask_def split: option.splits)
  from rm loc have at: "task_at s loc = Some task"
    by (auto simp: removeTask_def split: option.splits)
  from mv rm obtain d s2 where pl: "placeTask s1 task d = (Some ErrCapacityExceeded, s2)"
    and rs: "restoreTask s2 task loc = Some s'"
    by (auto simp: MoveTask_def Let_def split: option.splits prod.splits)
  from placeTask_capacity [OF pl] obtain idx u where
    idx: "idx < length (Categories s1)" and s2: "s2 = normalizeUrgent s1 idx u"
    by blast
  from loc show ?thesis
  proof (cases rule: findTask_cases)
    case category
    let ?ci = "CategoryIndex loc" and ?ti = "TaskIndex loc"
    from rm loc category have s1: "s1 = s\<lparr>Categories := (Categories s)[?ci :=
        (Categories s ! ?ci)\<lparr>Tasks := remove_at ?ti (Tasks (Categories s ! ?ci))\<rparr>]\<rparr>"
      by (auto simp: removeTask_def split: option.splits)
    have len: "length (Tasks (Categories s2 ! ?ci)) = length (Tasks (Categories s ! ?ci)) - 1"
      using category idx
      by (cases "idx = ?ci") (simp_all add: s2 s1 normalizeUrgent_def length_remove_at)
    have ci2: "?ci < length (Categories s2)"
      using category by (simp add: s2 s1)
    from category len have le: "?ti \<le> length (Tasks (Categories s2 ! ?ci))" by simp
    from rs category ci2 have "Tasks (Categories s' ! ?ci) =
        (if ?ti \<ge> length (Tasks (Categories s2 ! ?ci)) then Tasks (Categories s2 ! ?ci) @ [task]
         else insert_at ?ti task (Tasks (Categories s2 ! ?ci)))"
      and "?ci < length (Categories s')"
      by (auto simp: restoreTask_def nth_opt_def split: if_splits)
    with le have "task_at s' loc = Some task"
      using category(1)
      by (auto simp: task_at_def nth_opt_def nth_append nth_insert_at length_insert_at)
    with at show ?thesis by simp
  next
    case backburner
    from rm loc backburner have s1: "s1 = s\<lparr>Backburner := remove_at (TaskIndex loc) (Backburner s)\<rparr>"
      by (auto simp: removeTask_def split: option.splits)
    from at backburner have nth: "Backburner s ! TaskIndex loc = task"
      by (simp add: task_at_def nth_opt_def)
    from rs backburner have "Backburner s' = insert_at (TaskIndex loc) task (Backburner s2)"
      by (auto simp: restoreTask_def split: if_splits)
    with backburner nth have "Backburner s' = Backburner s"
      using insert_remove_at [of "TaskIndex loc" "Backburner s"] by (simp add: s2 s1)
    with at backburner show ?thesis by (simp add: task_at_def)
  next
    case archive
    from rm loc archive have s1: "s1 = s\<lparr>Archives := remove_at (TaskIndex loc) (Archives s)\<rparr>"
      by (auto simp: removeTask_def split: option.splits)
    from at archive have nth: "Archives s ! TaskIndex loc = task"
      by (simp add: task_at_def nth_opt_def)
    from rs archive have "Archives s' = insert_at (TaskIndex loc) task (Archives s2)"
      by (auto simp: restoreTask_def split: if_splits)
    with archive nth have "Archives s' = Archives s"
      using insert_remove_at [of "TaskIndex loc" "Archives s"] by (simp add: s2 s1)
    with at archive show ?thesis by (simp add: task_at_def)
  qed
qed

text \<open>
  C5.  When \<open>MoveTask\<close> returns \<open>ErrCapacityExceeded\<close>, the task that \<^verbatim>\<open>findTask\<close> located
  at address \<open>loc\<close> (container, category index, task index) before the call is at the
  same address afterwards, with every field as before, and \<^verbatim>\<open>findTask\<close> finds the ID at
  that address again.
\<close>

theorem move_task_capacity_restores:
  assumes mv: "MoveTask s tid dest = (Inl ErrCapacityExceeded, s')"
    and loc: "findTask s tid = Some loc"
  shows "(\<exists>task. task_at s loc = Some task \<and> task_at s' loc = Some task)
       \<and> findTask s' tid = Some loc"
proof -
  from mv loc obtain task s1 where rm: "removeTask s tid = Some (task, loc, s1)"
    by (auto simp: MoveTask_def removeTask_def split: option.splits)
  from mv rm obtain d s2 where pl: "placeTask s1 task d = (Some ErrCapacityExceeded, s2)"
    and rs: "restoreTask s2 task loc = Some s'"
    by (auto simp: MoveTask_def Let_def split: option.splits prod.splits)
  from placeTask_capacity [OF pl] obtain idx u where s2: "s2 = normalizeUrgent s1 idx u"
    by blast
  from failed_move_same_ids [OF rm rs [unfolded s2], of tid] loc
  have "findTask s' tid = Some loc" by simp
  with restored_at_address [OF mv loc] show ?thesis by simp
qed

theorem move_task_capacity_restores_witness:
  "fst (MoveTask boardA ''t3'' (moveTo ''category'' ''c1'')) = Inl ErrCapacityExceeded
   \<and> findTask boardA ''t3'' = Some \<lparr>Kind = ''category'', CategoryIndex = 1, TaskIndex = 0\<rparr>
   \<and> task_at boardA \<lparr>Kind = ''category'', CategoryIndex = 1, TaskIndex = 0\<rparr>
        = Some (mkTask ''t3'' 5)
   \<and> task_at (snd (MoveTask boardA ''t3'' (moveTo ''category'' ''c1'')))
        \<lparr>Kind = ''category'', CategoryIndex = 1, TaskIndex = 0\<rparr> = Some (mkTask ''t3'' 5)
   \<and> findTask (snd (MoveTask boardA ''t3'' (moveTo ''category'' ''c1''))) ''t3''
        = Some \<lparr>Kind = ''category'', CategoryIndex = 1, TaskIndex = 0\<rparr>"
proof -
  let ?L = "\<lparr>Kind = ''category'', CategoryIndex = 1, TaskIndex = 0\<rparr>"
  let ?r = "MoveTask boardA ''t3'' (moveTo ''category'' ''c1'')"
  have e: "fst ?r = Inl ErrCapacityExceeded"
    by code_simp
  then have h1: "?r = (Inl ErrCapacityExceeded, snd ?r)"
    by (metis prod.collapse)
  have h2: "findTask boardA ''t3'' = Some ?L"
    by code_simp
  have a: "task_at boardA ?L = Some (mkTask ''t3'' 5)"
    by code_simp
  from move_task_capacity_restores [OF h1 h2] a e h2 show ?thesis
    by auto
qed

section \<open>The category ceiling\<close>

lemma length_Categories_set_task [simp]:
  "length (Categories (set_task s loc t)) = length (Categories s)"
  by (simp add: set_task_def)

lemma length_Categories_clearFocus [simp]:
  "length (Categories (clearFocus s)) = length (Categories s)"
  by (simp add: clearFocus_def)

lemma length_Categories_normalizeFocus [simp]:
  "length (Categories (normalizeFocus s f)) = length (Categories s)"
  by (simp add: normalizeFocus_def)

lemma length_Categories_insertTask:
  "length (Categories (snd (insertTask newid s req))) = length (Categories s)"
  by (simp add: insertTask_def Let_def split: sum.splits option.splits)



lemma length_Categories_placeTask:
  "length (Categories (snd (placeTask s t d))) = length (Categories s)"
  by (simp add: placeTask_def Let_def split: sum.splits option.splits)

lemma length_Categories_removeTask:
  "removeTask s tid = Some (t, loc, s1) \<Longrightarrow> length (Categories s1) = length (Categories s)"
  by (auto simp: removeTask_def split: option.splits if_splits)

lemma length_Categories_restoreTask:
  "restoreTask s t loc = Some s1 \<Longrightarrow> length (Categories s1) = length (Categories s)"
  by (auto simp: restoreTask_def nth_opt_def split: option.splits if_splits)

lemma length_Categories_CreateTask:
  "length (Categories (snd (CreateTask newid s req))) = length (Categories s)"
  by (simp add: CreateTask_def Let_def length_Categories_insertTask split: option.splits)


lemma length_Categories_UpdateTask:
  "length (Categories (snd (UpdateTask s tid patch))) = length (Categories s)"
  by (simp add: UpdateTask_def Let_def split: option.splits prod.splits)

lemma length_Categories_MoveTask:
  "length (Categories (snd (MoveTask s tid dest))) = length (Categories s)"
proof (cases "removeTask s tid")
  case None
  then show ?thesis by (simp add: MoveTask_def)
next
  case (Some r)
  obtain task loc s1 where r: "r = (task, loc, s1)" by (cases r)
  note l1 = length_Categories_removeTask [OF Some [unfolded r]]
  obtain d where mv: "MoveTask s tid dest =
     (case placeTask s1 task d of
        (Some e, s2) \<Rightarrow> (case restoreTask s2 task loc of
                           Some s3 \<Rightarrow> (Inl e, s3) | None \<Rightarrow> (Inl RuntimePanic, s2))
      | (None, s2) \<Rightarrow> (Inr task, s2))"
    by (simp add: MoveTask_def Some r Let_def)
  obtain eo s2 where p: "placeTask s1 task d = (eo, s2)" by (cases "placeTask s1 task d")
  with length_Categories_placeTask [of s1 task d] l1
  have l2: "length (Categories s2) = length (Categories s)" by simp
  show ?thesis
  proof (cases eo)
    case None
    with mv p l2 show ?thesis by simp
  next
    case (Some e)
    show ?thesis
    proof (cases "restoreTask s2 task loc")
      case None
      with mv p Some l2 show ?thesis by simp
    next
      case (Some s3)
      with mv p \<open>eo = Some e\<close> l2 length_Categories_restoreTask [OF Some] show ?thesis by simp
    qed
  qed
qed


lemma length_Categories_DeleteTask:
  "length (Categories (snd (DeleteTask s tid))) = length (Categories s)"
  by (auto simp: DeleteTask_def dest: length_Categories_removeTask split: option.splits)

lemma length_Categories_RenameCategory:
  "length (Categories (snd (RenameCategory trim s cid name))) = length (Categories s)"
  by (simp add: RenameCategory_def Let_def split: option.splits)

lemma length_Categories_ReorderCategoryTasks:
  "length (Categories (snd (ReorderCategoryTasks s cid order))) = length (Categories s)"
  by (simp add: ReorderCategoryTasks_def split: option.splits sum.splits)

lemma length_Categories_SetFocused:
  "length (Categories (snd (SetFocused s tid))) = length (Categories s)"
  by (simp add: SetFocused_def Let_def split: option.splits)

lemma CreateCategory_success_length:
  "CreateCategory trim newid s name = (Inr c, s') \<Longrightarrow>
     length (Categories s) < CategoryLimit \<and> length (Categories s') = Suc (length (Categories s))"
  by (auto simp: CreateCategory_def Let_def split: if_splits)

lemma removeCategory_length:
  "removeCategory s cid = Some (cat, loc, s1) \<Longrightarrow> length (Categories s1) \<le> length (Categories s)"
  by (auto simp: removeCategory_def remove_at_def split: option.splits)

lemma placeCategory_success_length:
  "placeCategory s cat dest = (None, s') \<Longrightarrow> length (Categories s) \<le> CategoryLimit \<Longrightarrow>
     length (Categories s') \<le> CategoryLimit"
  by (auto simp: placeCategory_def length_insert_at split: if_splits option.splits)

lemma MoveCategory_success_length:
  assumes "MoveCategory s cid dest = (Inr c, s')" and "length (Categories s) \<le> CategoryLimit"
  shows "length (Categories s') \<le> CategoryLimit"
proof -
  from assms(1) obtain cat loc s1 d where rm: "removeCategory s cid = Some (cat, loc, s1)"
    and pl: "placeCategory s1 cat d = (None, s')"
    by (auto simp: MoveCategory_def Let_def split: option.splits prod.splits)
  from removeCategory_length [OF rm] assms(2) have "length (Categories s1) \<le> CategoryLimit"
    by simp
  with pl show ?thesis by (rule placeCategory_success_length)
qed

lemma outcome_None: "outcome r = (None, s') \<Longrightarrow> snd r = s' \<and> (\<exists>v. fst r = Inr v)"
  by (auto simp: outcome_def split: sum.splits)

lemma perform_category_count:
  assumes "perform trim newid s op = (None, s')" and "length (Categories s) \<le> CategoryLimit"
  shows "length (Categories s') \<le> CategoryLimit"
proof (cases op)
  case (OpCreateTask req)
  with assms length_Categories_CreateTask [of newid s req] show ?thesis
    by (auto dest!: outcome_None)
next
  case (OpUpdateTask tid patch)
  with assms length_Categories_UpdateTask [of s tid patch] show ?thesis
    by (auto dest!: outcome_None)
next
  case (OpMoveTask tid dest)
  with assms length_Categories_MoveTask [of s tid dest] show ?thesis
    by (auto dest!: outcome_None)
next
  case (OpDeleteTask tid)
  with assms length_Categories_DeleteTask [of s tid] show ?thesis
    by auto
next
  case (OpCreateCategory name)
  with assms have "\<exists>c. CreateCategory trim newid s name = (Inr c, s')"
    by (auto dest!: outcome_None) (metis prod.collapse)
  then show ?thesis by (auto dest!: CreateCategory_success_length)
next
  case (OpRenameCategory cid name)
  with assms length_Categories_RenameCategory [of trim s cid name] show ?thesis
    by (auto dest!: outcome_None)
next
  case (OpMoveCategory cid dest)
  with assms have "\<exists>c. MoveCategory s cid dest = (Inr c, s')"
    by (auto dest!: outcome_None) (metis prod.collapse)
  with assms(2) show ?thesis by (auto dest!: MoveCategory_success_length)
next
  case (OpReorderCategoryTasks cid order)
  with assms length_Categories_ReorderCategoryTasks [of s cid order] show ?thesis
    by (auto dest!: outcome_None)
next
  case (OpSetFocused tid)
  with assms length_Categories_SetFocused [of s tid] show ?thesis
    by (auto dest!: outcome_None)
qed


lemma category_kinds_distinct [simp]:
  "LocationCategoryBoard \<noteq> LocationBackburner" "LocationCategoryBoard \<noteq> LocationArchive"
  "LocationBackburner \<noteq> LocationCategoryBoard" "LocationArchive \<noteq> LocationCategoryBoard"
  by (simp_all add: LocationCategoryBoard_def LocationBackburner_def LocationArchive_def)

lemma CreateCategory_full:
  assumes "CategoryLimit \<le> length (Categories s)" and "trim name \<noteq> []"
    and "trim name \<notin> set (category_names s)"
  shows "CreateCategory trim newid s name = (Inl ErrCategoryLimit, s)"
proof -
  from assms(3) have "\<not> list_ex (\<lambda>c. CatName c = trim name) (Categories s)"
    "\<not> list_ex (\<lambda>c. CatName c = trim name) (CategoryBackburner s)"
    "\<not> list_ex (\<lambda>c. CatName c = trim name) (CategoryArchives s)"
    by (force simp: category_names_def list_ex_iff image_iff)+
  with assms(1,2) show ?thesis
    by (simp add: CreateCategory_def Let_def)
qed

lemma MoveCategory_full:
  assumes full: "CategoryLimit \<le> length (Categories s)"
    and nb: "cid \<notin> set (cat_ids (Categories s))"
    and pk: "cid \<in> set (cat_ids (CategoryBackburner s @ CategoryArchives s))"
    and board: "mc_Location dest = [] \<or> mc_Location dest = LocationCategoryBoard"
  shows "MoveCategory s cid dest = (Inl ErrCategoryLimit, s)"
proof -
  let ?d = "MoveCategoryRequest_Normalize dest"
  from board have loc: "mc_Location ?d = LocationCategoryBoard"
    by (auto simp: MoveCategoryRequest_Normalize_def)
  then have val: "MoveCategoryRequest_Validate ?d = None"
    by (simp add: MoveCategoryRequest_Validate_def)
  from nb have n1: "findCategoryIndex (Categories s) cid = None"
    by (simp add: findCategoryIndex_None)
  have pc: "\<And>s1 cat. length (Categories s1) = length (Categories s) \<Longrightarrow>
      placeCategory s1 cat ?d = (Some ErrCategoryLimit, s1)"
    using full loc by (simp add: placeCategory_def)
  show ?thesis
  proof (cases "findCategoryIndex (CategoryBackburner s) cid")
    case (Some i)
    then have i: "i < length (CategoryBackburner s)" by (simp add: findCategoryIndex_Some)
    let ?s1 = "s\<lparr>CategoryBackburner := remove_at i (CategoryBackburner s)\<rparr>"
    have rm: "removeCategory s cid = Some (CategoryBackburner s ! i,
        \<lparr>cl_Kind = LocationBackburner, cl_Index = i\<rparr>, ?s1)"
      by (simp add: removeCategory_def n1 Some)
    have rs: "restoreCategory ?s1 (CategoryBackburner s ! i)
        \<lparr>cl_Kind = LocationBackburner, cl_Index = i\<rparr> = Some s"
      using i by (simp add: restoreCategory_def length_remove_at insert_remove_at)
    show ?thesis
      by (simp add: MoveCategory_def Let_def val rm pc rs)
  next
    case None
    then have "cid \<notin> set (cat_ids (CategoryBackburner s))"
      by (simp add: findCategoryIndex_None)
    with pk have "cid \<in> set (cat_ids (CategoryArchives s))"
      by (auto simp: cat_ids_def)
    then have "findCategoryIndex (CategoryArchives s) cid \<noteq> None"
      by (simp add: findCategoryIndex_None)
    then obtain i where a: "findCategoryIndex (CategoryArchives s) cid = Some i"
      by blast
    then have i: "i < length (CategoryArchives s)" by (simp add: findCategoryIndex_Some)
    let ?s1 = "s\<lparr>CategoryArchives := remove_at i (CategoryArchives s)\<rparr>"
    have rm: "removeCategory s cid = Some (CategoryArchives s ! i,
        \<lparr>cl_Kind = LocationArchive, cl_Index = i\<rparr>, ?s1)"
      by (simp add: removeCategory_def n1 None a)
    have rs: "restoreCategory ?s1 (CategoryArchives s ! i)
        \<lparr>cl_Kind = LocationArchive, cl_Index = i\<rparr> = Some s"
      using i by (simp add: restoreCategory_def length_remove_at insert_remove_at)
    show ?thesis
      by (simp add: MoveCategory_def Let_def val rm pc rs)
  qed
qed

text \<open>
  C6, amended.  From a board with at most five active categories every successful
  operation leads to a board with at most five.  On a board that holds five (or more)
  active categories, \<open>CreateCategory\<close> with a name that is non-empty after trimming and
  used by no category, and \<open>MoveCategory\<close> to the board of a category that is parked
  (in \<open>CategoryBackburner\<close> or \<open>CategoryArchives\<close>, not on the board), fail with
  \<open>ErrCategoryLimit\<close> and leave the whole board, so also \<open>Categories\<close>, unchanged.
\<close>

theorem category_ceiling:
  "(length (Categories s) \<le> CategoryLimit \<and> perform trim newid s op = (None, s')
      \<longrightarrow> length (Categories s') \<le> CategoryLimit)
   \<and> (CategoryLimit \<le> length (Categories s) \<and> trim name \<noteq> []
        \<and> trim name \<notin> set (category_names s)
      \<longrightarrow> CreateCategory trim newid s name = (Inl ErrCategoryLimit, s))
   \<and> (CategoryLimit \<le> length (Categories s) \<and> cid \<notin> set (cat_ids (Categories s))
        \<and> cid \<in> set (cat_ids (CategoryBackburner s @ CategoryArchives s))
        \<and> (mc_Location dest = [] \<or> mc_Location dest = LocationCategoryBoard)
      \<longrightarrow> MoveCategory s cid dest = (Inl ErrCategoryLimit, s))"
  using perform_category_count [of trim newid s op s'] CreateCategory_full [of s trim name newid]
    MoveCategory_full [of s cid dest]
  by blast

text \<open>
  C6, as the claim states it, fails: \<open>MoveCategory\<close> takes the category off the board
  before it checks the ceiling, so on a board of five a category that is already active
  moves to a new position; the call succeeds and \<open>Categories\<close> changes.
\<close>

theorem category_ceiling_counterexample:
  "length (Categories boardFull) = 5
   \<and> fst (outcome (MoveCategory boardFull ''d1'' \<lparr>mc_Location = ''board'', mc_Position = Some 4\<rparr>))
       = None
   \<and> cat_ids (Categories (snd (MoveCategory boardFull ''d1''
         \<lparr>mc_Location = ''board'', mc_Position = Some 4\<rparr>)))
       = [''d2'', ''d3'', ''d4'', ''d5'', ''d1'']"
  by code_simp

theorem category_ceiling_witness:
  "length (Categories boardA) \<le> CategoryLimit
   \<and> fst (perform TrimSpace ''c9'' boardA (OpCreateCategory ''Delta'')) = None
   \<and> length (Categories (snd (perform TrimSpace ''c9'' boardA (OpCreateCategory ''Delta''))))
        \<le> CategoryLimit
   \<and> CategoryLimit \<le> length (Categories boardFull)
   \<and> CreateCategory TrimSpace ''c9'' boardFull ''Seven'' = (Inl ErrCategoryLimit, boardFull)
   \<and> MoveCategory boardFull ''d6'' \<lparr>mc_Location = ''board'', mc_Position = None\<rparr>
        = (Inl ErrCategoryLimit, boardFull)"
proof -
  let ?r = "perform TrimSpace ''c9'' boardA (OpCreateCategory ''Delta'')"
  have a1: "length (Categories boardA) \<le> CategoryLimit" by code_simp
  have a2: "fst ?r = None" by code_simp
  then have a3: "?r = (None, snd ?r)" by (metis prod.collapse)
  have b1: "CategoryLimit \<le> length (Categories boardFull)" by code_simp
  have b2: "TrimSpace ''Seven'' \<noteq> []" by code_simp
  have b3: "TrimSpace ''Seven'' \<notin> set (category_names boardFull)" by code_simp
  have c1: "''d6'' \<notin> set (cat_ids (Categories boardFull))" by code_simp
  have c2: "''d6'' \<in> set (cat_ids (CategoryBackburner boardFull @ CategoryArchives boardFull))"
    by code_simp
  have c3: "mc_Location \<lparr>mc_Location = ''board'', mc_Position = None\<rparr> = LocationCategoryBoard"
    by code_simp
  from category_ceiling [of boardA TrimSpace "''c9''" "OpCreateCategory ''Delta''" "snd ?r"]
       category_ceiling [of boardFull TrimSpace "''c9''" _ _ "''Seven''" "''d6''"
         "\<lparr>mc_Location = ''board'', mc_Position = None\<rparr>"]
       a1 a2 a3 b1 b2 b3 c1 c2 c3
  show ?thesis by simp
qed

section \<open>Operations that fail after writing\<close>

text \<open>
  C1 asks that an operation that returns an error leaves the in-memory board as it was.
  \<open>UpdateTask\<close> writes the patch through the pointer and renormalises the urgent flags
  before it checks the capacity, and nothing undoes these writes: a size patch that
  overloads the category returns \<open>ErrCapacityExceeded\<close> with the new size stored, and a
  patch whose state is invalid returns \<open>ErrInvalidState\<close> with the new name stored.
  \<open>MoveTask\<close> puts the removed task back, but \<^verbatim>\<open>placeTask\<close> has already cleared the
  urgent flags of the destination category.
\<close>

theorem failed_update_changes_board:
  "fst (UpdateTask boardA ''t2'' (noPatch\<lparr>p_Size := Some 4\<rparr>)) = Inl ErrCapacityExceeded
   \<and> map Size (Tasks (Categories boardA ! 0)) = [2, 2]
   \<and> map Size (Tasks (Categories (snd (UpdateTask boardA ''t2'' (noPatch\<lparr>p_Size := Some 4\<rparr>))) ! 0))
        = [2, 4]
   \<and> fst (UpdateTask boardA ''t2'' (noPatch\<lparr>p_Name := Some ''x'', p_State := Some ''bogus''\<rparr>))
        = Inl (ErrInvalidState ''bogus'')
   \<and> map Name (Tasks (Categories (snd (UpdateTask boardA ''t2''
          (noPatch\<lparr>p_Name := Some ''x'', p_State := Some ''bogus''\<rparr>))) ! 0)) = [''t1'', ''x'']
   \<and> fst (MoveTask boardA ''t3'' (moveTo ''category'' ''c1'')) = Inl ErrCapacityExceeded
   \<and> map Urgent (Tasks (Categories boardA ! 0)) = [True, False]
   \<and> map Urgent (Tasks (Categories (snd (MoveTask boardA ''t3'' (moveTo ''category'' ''c1''))) ! 0))
        = [False, False]"
  by code_simp

section \<open>Focus outside the active board\<close>

text \<open>
  C2 asks that no task in the backburner or the archive is ever focused and that
  \<open>SetFocused\<close> leaves the focused task inside an active category.  \<open>SetFocused\<close>
  drops the location \<^verbatim>\<open>findTask\<close> returns and sets the flag wherever the task is:
  for a task of the backburner the call succeeds and the backburner holds a focused
  task.
\<close>

theorem focus_on_backburner_task:
  "findTask boardA ''t4'' = Some \<lparr>Kind = ''backburner'', CategoryIndex = 0, TaskIndex = 0\<rparr>
   \<and> fst (SetFocused boardA ''t4'') = Inr ((mkTask ''t4'' 1)\<lparr>Focused := True\<rparr>)
   \<and> map Focused (Backburner (snd (SetFocused boardA ''t4''))) = [True]"
  by code_simp

section \<open>Urgent flags of the other tasks\<close>

text \<open>
  C4 asks that an \<open>UpdateTask\<close> which leaves its task not urgent does not change the
  urgent flag of any other task of the category.  \<open>UpdateTask\<close> calls
  \<^verbatim>\<open>normalizeUrgent(state, loc.CategoryIndex, "")\<close> in that case, which clears the flag
  of every task of the category: renaming the task \<open>t2\<close> clears the urgent flag of
  \<open>t1\<close>.
\<close>

theorem update_clears_other_urgent:
  "fst (UpdateTask boardA ''t2'' (noPatch\<lparr>p_Name := Some ''x''\<rparr>))
     = Inr ((mkTask ''t2'' 2)\<lparr>Name := ''x''\<rparr>)
   \<and> map Urgent (Tasks (Categories boardA ! 0)) = [True, False]
   \<and> map Urgent (Tasks (Categories (snd (UpdateTask boardA ''t2'' (noPatch\<lparr>p_Name := Some ''x''\<rparr>))) ! 0))
        = [False, False]"
  by code_simp

section \<open>Deleting a task\<close>

lemma removeTask_archive:
  assumes "findTask s tid = Some loc" and "Kind loc = LocationArchive"
  shows "\<exists>task. removeTask s tid =
           Some (task, loc, s\<lparr>Archives := remove_at (TaskIndex loc) (Archives s)\<rparr>)"
  using assms(1)
proof (cases rule: findTask_cases)
  case archive
  with assms show ?thesis
    by (simp add: removeTask_def task_at_def nth_opt_def)
qed (use assms(2) in simp_all)

text \<open>
  C8.  \<open>DeleteTask\<close> removes the task exactly when \<^verbatim>\<open>findTask\<close> locates it in
  \<open>Archives\<close>; a task located in an active category or in the backburner stays, and an
  ID that \<^verbatim>\<open>findTask\<close> does not find gives \<open>ErrTaskNotFound\<close>.  The error for a task
  that is not archived is built by \<^verbatim>\<open>fmt.Errorf\<close> without \<^verbatim>\<open>%w\<close>: it is not an
  \<open>ErrInvalidRequest\<close>, which is where the code departs from the claim.
\<close>

theorem delete_task_outcome:
  "DeleteTask s tid =
     (case findTask s tid of
        None \<Rightarrow> (Some ErrTaskNotFound, s)
      | Some loc \<Rightarrow>
         if Kind loc = LocationArchive
         then (None, s\<lparr>Archives := remove_at (TaskIndex loc) (Archives s)\<rparr>)
         else (Some (PlainError (''task '' @ tid @ '' is not in archive'')), s))"
proof (cases "findTask s tid")
  case None
  then show ?thesis by (simp add: DeleteTask_def)
next
  case (Some loc)
  show ?thesis
  proof (cases "Kind loc = LocationArchive")
    case True
    from removeTask_archive [OF Some True] Some True show ?thesis
      by (auto simp: DeleteTask_def)
  next
    case False
    with Some show ?thesis by (simp add: DeleteTask_def)
  qed
qed

lemma delete_unarchived_error_kind:
  "DeleteTask boardA ''t1'' = (Some (PlainError ''task t1 is not in archive''), boardA)
   \<and> DeleteTask boardA ''t4'' = (Some (PlainError ''task t4 is not in archive''), boardA)
   \<and> DeleteTask boardA ''zz'' = (Some ErrTaskNotFound, boardA)
   \<and> fst (DeleteTask boardA ''t5'') = None
   \<and> Archives (snd (DeleteTask boardA ''t5'')) = []"
  by code_simp

section \<open>Reordering the tasks of a category\<close>

lemma build_index_notin: "x \<notin> set xs \<Longrightarrow> build_index xs i m x = m x"
  by (induction xs arbitrary: i m) auto

lemma build_index_None: "(build_index xs i m x = None) = (x \<notin> set xs \<and> m x = None)"
  by (induction xs arbitrary: i m) auto

lemma build_index_nth:
  "distinct xs \<Longrightarrow> k < length xs \<Longrightarrow> build_index xs i m (xs ! k) = Some (i + k)"
proof (induction xs arbitrary: i m k)
  case Nil
  then show ?case by simp
next
  case (Cons x xs)
  show ?case
  proof (cases k)
    case 0
    with Cons.prems show ?thesis by (simp add: build_index_notin)
  next
    case (Suc j)
    with Cons.prems have "distinct xs" "j < length xs" by simp_all
    then have "build_index xs (Suc i) (m(x \<mapsto> i)) (xs ! j) = Some (Suc i + j)"
      by (rule Cons.IH)
    with Suc show ?thesis by simp
  qed
qed

lemma place_tasks_Inl:
  "place_tasks idx ts acc = Inl e \<Longrightarrow> \<exists>msg. e = ErrInvalidRequest msg"
  by (induction ts arbitrary: acc) (auto split: option.splits)

lemma place_tasks_fails:
  "(\<exists>e. place_tasks idx ts acc = Inl e) = (\<exists>t \<in> set ts. idx (ID t) = None)"
  by (induction ts arbitrary: acc) (auto split: option.splits)

lemma place_tasks_result:
  assumes "\<forall>t \<in> set ts. idx (ID t) = Some (pos t) \<and> pos t < length acc"
    and "distinct (map pos ts)"
  shows "\<exists>r. place_tasks idx ts acc = Inr r \<and> length r = length acc
           \<and> (\<forall>t \<in> set ts. r ! pos t = t)
           \<and> (\<forall>k. k \<notin> pos ` set ts \<longrightarrow> r ! k = acc ! k)"
  using assms
proof (induction ts arbitrary: acc)
  case Nil
  then show ?case by simp
next
  case (Cons t ts)
  let ?acc = "acc[pos t := t]"
  from Cons.prems have a: "\<forall>u \<in> set ts. idx (ID u) = Some (pos u) \<and> pos u < length ?acc"
    and d: "distinct (map pos ts)" and nt: "pos t \<notin> pos ` set ts"
    and it: "idx (ID t) = Some (pos t)" and lt: "pos t < length acc"
    by auto
  from Cons.IH [OF a d] obtain r where r: "place_tasks idx ts ?acc = Inr r"
    "length r = length ?acc" "\<forall>u \<in> set ts. r ! pos u = u"
    "\<forall>k. k \<notin> pos ` set ts \<longrightarrow> r ! k = ?acc ! k"
    by blast
  from r(4) nt lt have "r ! pos t = t" by simp
  moreover have "\<forall>k. k \<notin> pos ` set (t # ts) \<longrightarrow> r ! k = acc ! k"
    using r(4) by auto
  ultimately show ?case using r it by simp
qed


lemma reorderTasks_success_iff:
  assumes d: "distinct (task_ids (Tasks cat))"
  shows "(\<exists>c. reorderTasks cat order = Inr c) = (mset order = mset (task_ids (Tasks cat)))"
proof -
  let ?ts = "Tasks cat" and ?idx = "build_index order 0 Map.empty"
  have fail: "(\<exists>e. place_tasks ?idx ?ts (replicate (length ?ts) zeroTask) = Inl e)
                = (\<not> set (task_ids ?ts) \<subseteq> set order)"
    by (auto simp: place_tasks_fails build_index_None task_ids_def)
  have ok: "(\<exists>c. reorderTasks cat order = Inr c)
              = (length order = length ?ts \<and> set (task_ids ?ts) \<subseteq> set order)"
  proof (cases "length order = length ?ts")
    case False
    then show ?thesis by (simp add: reorderTasks_def)
  next
    case True
    show ?thesis
    proof (cases "place_tasks ?idx ?ts (replicate (length ?ts) zeroTask)")
      case (Inl e)
      with fail have "\<not> set (task_ids ?ts) \<subseteq> set order" by blast
      with Inl True show ?thesis by (simp add: reorderTasks_def)
    next
      case (Inr r)
      with fail have "set (task_ids ?ts) \<subseteq> set order" by auto
      with Inr True show ?thesis by (simp add: reorderTasks_def)
    qed
  qed
  have "(length order = length ?ts \<and> set (task_ids ?ts) \<subseteq> set order)
          = (mset order = mset (task_ids ?ts))"
  proof
    assume a: "length order = length ?ts \<and> set (task_ids ?ts) \<subseteq> set order"
    have c1: "card (set (task_ids ?ts)) = length ?ts"
      using distinct_card [OF d] by (simp add: task_ids_def)
    have "card (set (task_ids ?ts)) \<le> card (set order)"
      using a by (simp add: card_mono)
    moreover have "card (set order) \<le> length order" by (rule card_length)
    ultimately have c2: "card (set order) = length order" using a c1 by simp
    then have do: "distinct order" by (rule card_distinct)
    have "set (task_ids ?ts) = set order"
      using a c1 c2 by (intro card_subset_eq) simp_all
    with d do show "mset order = mset (task_ids ?ts)"
      by (simp add: set_eq_iff_mset_eq_distinct [symmetric])
  next
    assume m: "mset order = mset (task_ids ?ts)"
    from mset_eq_length [OF m] mset_eq_setD [OF m]
    show "length order = length ?ts \<and> set (task_ids ?ts) \<subseteq> set order"
      by (simp add: task_ids_def)
  qed
  with ok show ?thesis by simp
qed


lemma reorderTasks_result:
  assumes d: "distinct (task_ids (Tasks cat))"
    and m: "mset order = mset (task_ids (Tasks cat))"
  shows "\<exists>r. reorderTasks cat order = Inr (cat\<lparr>Tasks := r\<rparr>) \<and> task_ids r = order
           \<and> mset r = mset (Tasks cat)"
proof -
  let ?ts = "Tasks cat" and ?idx = "build_index order 0 Map.empty"
  let ?n = "length ?ts"
  define pos where "pos t = the (?idx (ID t))" for t :: Task
  from mset_eq_length [OF m] have len: "length order = ?n" by (simp add: task_ids_def)
  from mset_eq_setD [OF m] have sets: "set order = ID ` set ?ts" by (simp add: task_ids_def)
  from d mset_eq_imp_distinct_iff [OF m] have dord: "distinct order" by simp
  from d have dts: "distinct ?ts" and inj: "inj_on ID (set ?ts)"
    by (simp_all add: task_ids_def distinct_map)
  have idx_nth: "\<And>k. k < ?n \<Longrightarrow> ?idx (order ! k) = Some k"
    using build_index_nth [OF dord, of _ 0 Map.empty] len by simp
  have pos: "?idx (ID t) = Some (pos t) \<and> pos t < ?n \<and> order ! pos t = ID t" if "t \<in> set ?ts" for t
  proof -
    from that sets have "ID t \<in> set order" by auto
    then obtain k where k: "k < length order" "order ! k = ID t"
      by (auto simp: in_set_conv_nth)
    with idx_nth [of k] len have "?idx (ID t) = Some k" by simp
    with k len show ?thesis by (simp add: pos_def)
  qed
  have "inj_on pos (set ?ts)"
  proof (rule inj_onI)
    fix t u assume tu: "t \<in> set ?ts" "u \<in> set ?ts" "pos t = pos u"
    from pos [OF tu(1)] have "order ! pos t = ID t" by blast
    moreover from pos [OF tu(2)] have "order ! pos u = ID u" by blast
    ultimately have "ID t = ID u" by (simp only: tu(3))
    with inj tu show "t = u" by (simp add: inj_on_def)
  qed
  with dts have dpos: "distinct (map pos ?ts)" by (simp add: distinct_map)
  have "\<forall>t \<in> set ?ts. ?idx (ID t) = Some (pos t) \<and> pos t < length (replicate ?n zeroTask)"
    using pos by simp
  from place_tasks_result [OF this dpos] obtain r where
    r: "place_tasks ?idx ?ts (replicate ?n zeroTask) = Inr r" "length r = ?n"
       "\<forall>t \<in> set ?ts. r ! pos t = t"
    by auto
  have at: "r ! k \<in> set ?ts \<and> ID (r ! k) = order ! k" if "k < ?n" for k
  proof -
    from that len sets obtain t where t: "t \<in> set ?ts" "ID t = order ! k"
      by (metis imageE nth_mem)
    from idx_nth [OF that] have "?idx (ID t) = Some k"
      by (simp only: t(2))
    moreover from pos [OF t(1)] have "?idx (ID t) = Some (pos t)" by blast
    ultimately have "pos t = k" by simp
    moreover from r(3) t(1) have "r ! pos t = t" by blast
    ultimately have "r ! k = t" by simp
    with t show ?thesis by (simp only:)
  qed
  have ids: "task_ids r = order"
    unfolding task_ids_def
    by (rule nth_equalityI) (simp_all add: r(2) len at)
  with dord have dr: "distinct r"
    by (auto simp: task_ids_def distinct_map)
  have sub: "set r \<subseteq> set ?ts"
    using at r(2) by (auto simp: in_set_conv_nth)
  have "card (set r) = card (set ?ts)"
    using dr dts r(2) by (simp add: distinct_card)
  with sub have "set r = set ?ts"
    by (intro card_subset_eq) simp_all
  with dr dts have "mset r = mset ?ts"
    by (simp add: set_eq_iff_mset_eq_distinct [symmetric])
  with r(1) ids len show ?thesis
    by (auto simp: reorderTasks_def)
qed


lemma reorderTasks_Inl:
  "reorderTasks cat order = Inl e \<Longrightarrow> \<exists>msg. e = ErrInvalidRequest msg"
  by (auto simp: reorderTasks_def dest: place_tasks_Inl split: if_splits sum.splits)

text \<open>
  C7, amended.  When the ID is that of no active category, \<open>ReorderCategoryTasks\<close>
  returns \<open>ErrCategoryNotFound\<close>.  When \<open>i\<close> is the index of the active category with
  the ID and the task IDs of that category are pairwise distinct, the call succeeds if
  and only if \<open>order\<close> is, as a multiset, the task IDs of the category; on success only
  that category changes, it holds the same tasks as before and the task at position
  \<open>k\<close> has the ID \<open>order ! k\<close>; on a mismatch the call returns an
  \<open>ErrInvalidRequest\<close> and the board is unchanged.
\<close>

theorem reorder_category_tasks:
  "(cid \<notin> set (cat_ids (Categories s))
      \<longrightarrow> ReorderCategoryTasks s cid order = (Inl ErrCategoryNotFound, s))
   \<and> (findCategoryIndex (Categories s) cid = Some i
        \<and> distinct (task_ids (Tasks (Categories s ! i)))
      \<longrightarrow> (if mset order = mset (task_ids (Tasks (Categories s ! i)))
           then \<exists>r. ReorderCategoryTasks s cid order
                       = (Inr ((Categories s ! i)\<lparr>Tasks := r\<rparr>),
                          s\<lparr>Categories := (Categories s)[i := (Categories s ! i)\<lparr>Tasks := r\<rparr>]\<rparr>)
                     \<and> task_ids r = order
                     \<and> mset r = mset (Tasks (Categories s ! i))
           else \<exists>msg. ReorderCategoryTasks s cid order = (Inl (ErrInvalidRequest msg), s)))"
proof (intro conjI impI)
  assume "cid \<notin> set (cat_ids (Categories s))"
  then show "ReorderCategoryTasks s cid order = (Inl ErrCategoryNotFound, s)"
    by (simp add: ReorderCategoryTasks_def findCategoryIndex_None [symmetric])
next
  let ?cat = "Categories s ! i"
  assume a: "findCategoryIndex (Categories s) cid = Some i \<and> distinct (task_ids (Tasks ?cat))"
  show "if mset order = mset (task_ids (Tasks ?cat))
        then \<exists>r. ReorderCategoryTasks s cid order
                    = (Inr (?cat\<lparr>Tasks := r\<rparr>),
                       s\<lparr>Categories := (Categories s)[i := ?cat\<lparr>Tasks := r\<rparr>]\<rparr>)
                  \<and> task_ids r = order \<and> mset r = mset (Tasks ?cat)
        else \<exists>msg. ReorderCategoryTasks s cid order = (Inl (ErrInvalidRequest msg), s)"
  proof (cases "mset order = mset (task_ids (Tasks ?cat))")
    case True
    from a True reorderTasks_result [of ?cat order] obtain r where
      "reorderTasks ?cat order = Inr (?cat\<lparr>Tasks := r\<rparr>)" "task_ids r = order"
      "mset r = mset (Tasks ?cat)"
      by blast
    with a True show ?thesis
      by (auto simp: ReorderCategoryTasks_def)
  next
    case False
    with a reorderTasks_success_iff [of ?cat order]
    have "\<not> (\<exists>c. reorderTasks ?cat order = Inr c)" by simp
    then obtain e where "reorderTasks ?cat order = Inl e"
      by (cases "reorderTasks ?cat order") auto
    with reorderTasks_Inl [of ?cat order e] obtain msg where
      "reorderTasks ?cat order = Inl (ErrInvalidRequest msg)" by auto
    with a False show ?thesis
      by (auto simp: ReorderCategoryTasks_def)
  qed
qed

text \<open>
  C7, as the claim states it, fails on a category that holds two tasks with one ID (a
  state \<open>CreateTask\<close> produces from a request that carries an ID already in use): an
  order of the right length that names every task ID succeeds although it contains an ID
  of no task, one of the two tasks is overwritten, and the slot of the extra ID is left
  with the zero task.
\<close>

theorem reorder_category_tasks_counterexample:
  "fst (CreateTask ''n1'' boardA dupRequest) = Inr (mkTask ''t2'' 1)
   \<and> task_ids (Tasks (Categories boardDup ! 0)) = [''t1'', ''t2'', ''t2'']
   \<and> ''zz'' \<notin> set (task_ids (Tasks (Categories boardDup ! 0)))
   \<and> fst (outcome (ReorderCategoryTasks boardDup ''c1'' [''t1'', ''t2'', ''zz''])) = None
   \<and> Tasks (Categories (snd (ReorderCategoryTasks boardDup ''c1'' [''t1'', ''t2'', ''zz''])) ! 0)
       = [(mkTask ''t1'' 2)\<lparr>Urgent := True\<rparr>, mkTask ''t2'' 1, zeroTask]"
  by code_simp

theorem reorder_category_tasks_witness:
  "''c3'' \<notin> set (cat_ids (Categories boardA))
   \<and> ReorderCategoryTasks boardA ''c3'' [''t6'', ''t7''] = (Inl ErrCategoryNotFound, boardA)
   \<and> findCategoryIndex (Categories boardA) ''c1'' = Some 0
   \<and> distinct (task_ids (Tasks (Categories boardA ! 0)))
   \<and> task_ids (Tasks (Categories (snd (ReorderCategoryTasks boardA ''c1'' [''t2'', ''t1''])) ! 0))
       = [''t2'', ''t1'']
   \<and> snd (ReorderCategoryTasks boardA ''c1'' [''t2'', ''zz'']) = boardA"
proof -
  have h0: "''c3'' \<notin> set (cat_ids (Categories boardA))" by code_simp
  have h1: "findCategoryIndex (Categories boardA) ''c1'' = Some 0" by code_simp
  have h2: "distinct (task_ids (Tasks (Categories boardA ! 0)))" by code_simp
  have ids: "task_ids (Tasks (Categories boardA ! 0)) = [''t1'', ''t2'']" by code_simp
  have m1: "mset [''t2'', ''t1''] = mset (task_ids (Tasks (Categories boardA ! 0)))"
    unfolding ids by simp
  have m2: "mset [''t2'', ''zz''] \<noteq> mset (task_ids (Tasks (Categories boardA ! 0)))"
    unfolding ids by (auto dest: mset_eq_setD)
  have l: "0 < length (Categories boardA)" by code_simp
  from reorder_category_tasks [of "''c3''" boardA "[''t6'', ''t7'']"] h0
  have r0: "ReorderCategoryTasks boardA ''c3'' [''t6'', ''t7''] = (Inl ErrCategoryNotFound, boardA)"
    by simp
  from reorder_category_tasks [of "''c1''" boardA "[''t2'', ''t1'']" 0] h1 h2 m1 l
  have r1: "task_ids (Tasks (Categories (snd (ReorderCategoryTasks boardA ''c1'' [''t2'', ''t1''])) ! 0))
       = [''t2'', ''t1'']"
    by auto
  from reorder_category_tasks [of "''c1''" boardA "[''t2'', ''zz'']" 0] h1 h2 m2
  have r2: "snd (ReorderCategoryTasks boardA ''c1'' [''t2'', ''zz'']) = boardA"
    by auto
  from h0 h1 h2 r0 r1 r2 show ?thesis by simp
qed

section \<open>The column capacity\<close>

lemma wrap64_id: "- (2 ^ 63) \<le> x \<Longrightarrow> x < 2 ^ 63 \<Longrightarrow> wrap64 x = x"
  by (simp add: wrap64_def)

lemma capacity_loop_sum:
  assumes "\<forall>t \<in> set ts. size_ok t" and "0 \<le> tot" and "tot \<le> 5"
  shows "(capacity_loop tot ts = None) = (tot + sum_list (map Size ts) \<le> 5)"
  using assms
proof (induction ts arbitrary: tot)
  case Nil
  then show ?case by simp
next
  case (Cons t ts)
  from Cons.prems have t: "0 \<le> Size t" "Size t \<le> 5" and rest: "\<forall>u \<in> set ts. size_ok u"
    by (simp_all add: size_ok_def)
  from rest have nn: "0 \<le> sum_list (map Size ts)"
    by (intro sum_list_nonneg) (auto simp: size_ok_def)
  from t Cons.prems have w: "wrap64 (tot + Size t) = tot + Size t"
    by (intro wrap64_id) simp_all
  show ?case
  proof (cases "tot + Size t > 5")
    case True
    with w nn show ?thesis by (simp add: ColumnCapacity_def)
  next
    case False
    with Cons.IH [OF rest, of "tot + Size t"] t Cons.prems w show ?thesis
      by (simp add: ColumnCapacity_def add.assoc)
  qed
qed

lemma ensureCapacity_sum:
  "\<forall>t \<in> set (Tasks cat). size_ok t \<Longrightarrow>
     (ensureCapacity cat = None) = (category_sum cat \<le> ColumnCapacity)"
  using capacity_loop_sum [of "Tasks cat" 0]
  by (simp add: ensureCapacity_def category_sum_def ColumnCapacity_def)

lemma ensureCapacity_exceeded:
  "\<forall>t \<in> set (Tasks cat). size_ok t \<Longrightarrow> category_sum cat > ColumnCapacity \<Longrightarrow>
     ensureCapacity cat = Some ErrCapacityExceeded"
  using ensureCapacity_sum [of cat] ensureCapacity_err [of cat]
  by (cases "ensureCapacity cat") auto

lemma sum_list_insert_at:
  "sum_list (map Size (insert_at i t ts)) = Size t + sum_list (map Size ts)"
proof -
  have "sum_list (map Size (take i ts @ drop i ts)) = sum_list (map Size ts)" by simp
  then show ?thesis by (simp add: insert_at_def del: append_take_drop_id)
qed

lemma set_insert_at: "set (insert_at i x xs) = insert x (set xs)"
proof -
  have "set (take i xs @ drop i xs) = set xs" by simp
  then show ?thesis by (auto simp: insert_at_def simp del: append_take_drop_id)
qed

lemma set_remove_at: "set (remove_at i xs) \<subseteq> set xs"
  by (auto simp: remove_at_def dest: in_set_takeD in_set_dropD)

lemma sum_list_remove_at:
  "i < length ts \<Longrightarrow> sum_list (map Size (remove_at i ts)) = sum_list (map Size ts) - Size (ts ! i)"
proof -
  assume i: "i < length ts"
  then have "ts = take i ts @ ts ! i # drop (Suc i) ts" by (rule id_take_nth_drop)
  then have "sum_list (map Size ts) = sum_list (map Size (take i ts @ ts ! i # drop (Suc i) ts))"
    by simp
  then show ?thesis by (simp add: remove_at_def)
qed


lemma capacity_ok_iff:
  "capacity_ok s = (\<forall>c \<in> set (Categories s). category_sum c \<le> ColumnCapacity)"
  by (simp add: capacity_ok_def list_all_iff)

lemma sizes_ok_active: "sizes_ok s \<Longrightarrow> active_sizes_ok s"
  by (auto simp: sizes_ok_def active_sizes_ok_def list_all_iff)

lemma capacity_ok_by_index:
  assumes "capacity_ok s" and "length (Categories s') = length (Categories s)"
    and "\<forall>j < length (Categories s). j \<noteq> i \<longrightarrow> category_sum (Categories s' ! j) = category_sum (Categories s ! j)"
    and "i < length (Categories s) \<longrightarrow> category_sum (Categories s' ! i) \<le> ColumnCapacity"
  shows "capacity_ok s'"
  unfolding capacity_ok_iff
proof
  fix c assume "c \<in> set (Categories s')"
  then obtain j where j: "j < length (Categories s')" "c = Categories s' ! j"
    by (auto simp: in_set_conv_nth)
  show "category_sum c \<le> ColumnCapacity"
  proof (cases "j = i")
    case True
    with j assms(2,4) show ?thesis by simp
  next
    case False
    with j assms(2,3) have "category_sum c = category_sum (Categories s ! j)" by simp
    moreover from j assms(2) have "Categories s ! j \<in> set (Categories s)" by simp
    ultimately show ?thesis using assms(1) by (simp add: capacity_ok_iff)
  qed
qed

lemma capacity_ok_same_sums:
  "map category_sum (Categories s') = map category_sum (Categories s) \<Longrightarrow>
     capacity_ok s' = capacity_ok s"
proof -
  assume a: "map category_sum (Categories s') = map category_sum (Categories s)"
  have "\<And>b. capacity_ok b = list_all (\<lambda>x. x \<le> ColumnCapacity) (map category_sum (Categories b))"
    by (simp add: capacity_ok_def list.pred_map comp_def)
  with a show ?thesis by simp
qed

lemma map_list_update_same:
  "i < length xs \<Longrightarrow> g y = g (xs ! i) \<Longrightarrow> map g (xs[i := y]) = map g xs"
  by (simp add: map_update list_update_same_conv)

lemma sums_normalizeUrgent [simp]:
  "map category_sum (Categories (normalizeUrgent s i u)) = map category_sum (Categories s)"
proof (cases "i < length (Categories s)")
  case True
  then show ?thesis
    by (simp add: normalizeUrgent_def map_list_update_same category_sum_def comp_def)
next
  case False
  then show ?thesis by (simp add: normalizeUrgent_def list_update_beyond)
qed

lemma category_sum_clearCategoryFocus [simp]:
  "category_sum (clearCategoryFocus c) = category_sum c"
  by (simp add: category_sum_def clearCategoryFocus_def unfocus_def comp_def)

lemma sums_clearFocus [simp]:
  "map category_sum (Categories (clearFocus s)) = map category_sum (Categories s)"
  by (simp add: clearFocus_def comp_def)

lemma sums_normalizeFocus [simp]:
  "map category_sum (Categories (normalizeFocus s f)) = map category_sum (Categories s)"
  by (simp add: normalizeFocus_def comp_def category_sum_def)

lemma active_sizes_normalizeUrgent:
  assumes "active_sizes_ok s"
  shows "active_sizes_ok (normalizeUrgent s i u)"
proof (cases "i < length (Categories s)")
  case True
  then have "Categories s ! i \<in> set (Categories s)" by simp
  with assms show ?thesis
    unfolding active_sizes_ok_def normalizeUrgent_def
    by (auto simp: size_ok_def dest!: set_update_subset_insert [THEN subsetD])
next
  case False
  with assms show ?thesis
    by (simp add: active_sizes_ok_def normalizeUrgent_def list_update_beyond)
qed


lemma capacity_ok_update:
  assumes "capacity_ok s" and "category_sum c \<le> ColumnCapacity"
  shows "capacity_ok (s\<lparr>Categories := (Categories s)[i := c]\<rparr>)"
  using assms
  by (auto simp: capacity_ok_iff dest!: set_update_subset_insert [THEN subsetD])

lemma placeTask_success:
  assumes "placeTask s task d = (None, s')"
  obtains (category) idx u i task' where "idx < length (Categories s)" "Size task' = Size task"
      "ensureCapacity ((Categories (normalizeUrgent s idx u) ! idx)\<lparr>Tasks :=
          insert_at i task' (Tasks (Categories (normalizeUrgent s idx u) ! idx))\<rparr>) = None"
      "s' = (normalizeUrgent s idx u)\<lparr>Categories := (Categories (normalizeUrgent s idx u))[idx :=
          (Categories (normalizeUrgent s idx u) ! idx)\<lparr>Tasks :=
             insert_at i task' (Tasks (Categories (normalizeUrgent s idx u) ! idx))\<rparr>]\<rparr>"
  | (flat) "Categories s' = Categories s"
proof -
  let ?d = "MoveTaskRequest_Normalize d"
  from assms have v: "MoveTaskRequest_Validate ?d = None"
    by (cases "MoveTaskRequest_Validate ?d") (simp_all add: placeTask_def Let_def)
  show thesis
  proof (cases "mv_Location ?d = LocationCategory")
    case True
    from assms v True obtain idx where idx: "findCategoryIndex (Categories s) (mv_CategoryID ?d) = Some idx"
      by (cases "findCategoryIndex (Categories s) (mv_CategoryID ?d)") (simp_all add: placeTask_def Let_def)
    then have lt: "idx < length (Categories s)" by (simp add: findCategoryIndex_Some)
    let ?t = "task\<lparr>Focused := False, SourceID := [], Source := []\<rparr>"
    let ?u = "if Urgent task then ID task else []"
    let ?i = "insertIndex (mv_Position ?d) (length (Tasks (Categories s ! idx)))"
    let ?s1 = "normalizeUrgent s idx ?u"
    let ?c1 = "(Categories ?s1 ! idx)\<lparr>Tasks := insert_at ?i ?t (Tasks (Categories ?s1 ! idx))\<rparr>"
    have eq: "placeTask s task d =
        (case ensureCapacity ?c1 of
           Some e \<Rightarrow> (Some e, ?s1\<lparr>Categories := (Categories ?s1)[idx :=
                        ?c1\<lparr>Tasks := remove_at ?i (Tasks ?c1)\<rparr>]\<rparr>)
         | None \<Rightarrow> (None, ?s1\<lparr>Categories := (Categories ?s1)[idx := ?c1]\<rparr>))"
      using v True idx
      by (simp add: placeTask_def Let_def split del: if_split cong: if_cong option.case_cong)
    with assms have e: "ensureCapacity ?c1 = None"
      by (cases "ensureCapacity ?c1") simp_all
    with eq assms have s': "s' = ?s1\<lparr>Categories := (Categories ?s1)[idx := ?c1]\<rparr>"
      by simp
    have sz: "Size ?t = Size task" by simp
    from lt sz e s' show ?thesis by (rule category)
  next
    case False
    with v have "mv_Location ?d = LocationBackburner \<or> mv_Location ?d = LocationArchive"
      by (auto simp: MoveTaskRequest_Validate_def split: if_splits)
    with assms v False have "Categories s' = Categories s"
      by (auto simp: placeTask_def Let_def)
    then show ?thesis by (rule flat)
  qed
qed
lemma placeTask_capacity_ok:
  assumes pl: "placeTask s task d = (None, s')"
    and cap: "capacity_ok s" and act: "active_sizes_ok s" and sz: "size_ok task"
  shows "capacity_ok s'"
  using pl
proof (cases rule: placeTask_success)
  case (category idx u i task')
  let ?s1 = "normalizeUrgent s idx u"
  let ?cat = "Categories ?s1 ! idx"
  from category(1) have "?cat \<in> set (Categories ?s1)" by simp
  with active_sizes_normalizeUrgent [OF act, of idx u]
  have "\<forall>t \<in> set (Tasks ?cat). size_ok t" by (simp add: active_sizes_ok_def)
  moreover from sz category(2) have "size_ok task'" by (simp add: size_ok_def)
  ultimately have "\<forall>t \<in> set (Tasks (?cat\<lparr>Tasks := insert_at i task' (Tasks ?cat)\<rparr>)). size_ok t"
    by (simp add: set_insert_at)
  from ensureCapacity_sum [OF this] category(3)
  have "category_sum (?cat\<lparr>Tasks := insert_at i task' (Tasks ?cat)\<rparr>) \<le> ColumnCapacity"
    by simp
  moreover from cap have "capacity_ok ?s1"
    by (simp add: capacity_ok_same_sums [of ?s1 s])
  ultimately show ?thesis
    unfolding category(4) by (rule capacity_ok_update [rotated])
next
  case flat
  with cap show ?thesis by (simp add: capacity_ok_def)
qed


lemma active_sizes_update:
  assumes "active_sizes_ok s" and "\<forall>t \<in> set (Tasks c). size_ok t"
  shows "active_sizes_ok (s\<lparr>Categories := (Categories s)[i := c]\<rparr>)"
  using assms
  by (auto simp: active_sizes_ok_def dest!: set_update_subset_insert [THEN subsetD])

lemma removeTask_capacity_ok:
  assumes rm: "removeTask s tid = Some (task, loc, s1)"
    and cap: "capacity_ok s" and sz: "sizes_ok s"
  shows "capacity_ok s1 \<and> active_sizes_ok s1 \<and> size_ok task"
proof -
  from rm have loc: "findTask s tid = Some loc" and at: "task_at s loc = Some task"
    by (auto simp: removeTask_def split: option.splits)
  note act = sizes_ok_active [OF sz]
  from loc show ?thesis
  proof (cases rule: findTask_cases)
    case category
    let ?ci = "CategoryIndex loc" and ?ti = "TaskIndex loc"
    let ?c = "Categories s ! ?ci"
    from category have cin: "?c \<in> set (Categories s)" by simp
    from at category have task: "task = Tasks ?c ! ?ti"
      by (simp add: task_at_def nth_opt_def)
    with category have tin: "task \<in> set (Tasks ?c)" by simp
    with cin act have ok: "size_ok task" by (auto simp: active_sizes_ok_def)
    from rm loc category have s1: "s1 = s\<lparr>Categories := (Categories s)[?ci :=
        ?c\<lparr>Tasks := remove_at ?ti (Tasks ?c)\<rparr>]\<rparr>"
      by (auto simp: removeTask_def split: option.splits)
    have "category_sum (?c\<lparr>Tasks := remove_at ?ti (Tasks ?c)\<rparr>) = category_sum ?c - Size task"
      using category task by (simp add: category_sum_def sum_list_remove_at)
    moreover from cap cin have "category_sum ?c \<le> ColumnCapacity" by (simp add: capacity_ok_iff)
    ultimately have "category_sum (?c\<lparr>Tasks := remove_at ?ti (Tasks ?c)\<rparr>) \<le> ColumnCapacity"
      using ok by (simp add: size_ok_def)
    with cap have c1: "capacity_ok s1" unfolding s1 by (rule capacity_ok_update)
    from act cin have "\<forall>t \<in> set (Tasks (?c\<lparr>Tasks := remove_at ?ti (Tasks ?c)\<rparr>)). size_ok t"
      using set_remove_at [of ?ti "Tasks ?c"] by (auto simp: active_sizes_ok_def)
    with act have "active_sizes_ok s1" unfolding s1 by (rule active_sizes_update)
    with c1 ok show ?thesis by simp
  next
    case backburner
    from rm loc backburner have "Categories s1 = Categories s"
      by (auto simp: removeTask_def split: option.splits)
    moreover from at backburner have "task \<in> set (Backburner s)"
      by (auto simp: task_at_def nth_opt_def)
    ultimately show ?thesis using cap act sz
      by (auto simp: capacity_ok_def active_sizes_ok_def sizes_ok_def list_all_iff)
  next
    case archive
    from rm loc archive have "Categories s1 = Categories s"
      by (auto simp: removeTask_def split: option.splits)
    moreover from at archive have "task \<in> set (Archives s)"
      by (auto simp: task_at_def nth_opt_def)
    ultimately show ?thesis using cap act sz
      by (auto simp: capacity_ok_def active_sizes_ok_def sizes_ok_def list_all_iff)
  qed
qed

lemma MoveTask_capacity_ok:
  assumes mv: "MoveTask s tid dest = (Inr t, s')" and cap: "capacity_ok s" and sz: "sizes_ok s"
  shows "capacity_ok s'"
proof -
  from mv obtain task loc s1 where rm: "removeTask s tid = Some (task, loc, s1)"
    by (cases "removeTask s tid") (auto simp: MoveTask_def)
  from mv rm obtain d where pl: "placeTask s1 task d = (None, s')"
    by (auto simp: MoveTask_def Let_def split: option.splits prod.splits)
  from removeTask_capacity_ok [OF rm cap sz] pl show ?thesis
    by (auto intro: placeTask_capacity_ok)
qed


lemma capacity_ok_normalizeUrgent [simp]:
  "capacity_ok (normalizeUrgent s i u) = capacity_ok s"
  by (rule capacity_ok_same_sums) simp

lemma capacity_ok_normalizeFocus [simp]:
  "capacity_ok (normalizeFocus s f) = capacity_ok s"
  by (rule capacity_ok_same_sums) simp

lemma capacity_ok_clearFocus [simp]:
  "capacity_ok (clearFocus s) = capacity_ok s"
  by (rule capacity_ok_same_sums) simp

lemma insert_capacity_step:
  assumes "capacity_ok s" and "active_sizes_ok s" and "idx < length (Categories s)"
    and "size_ok task"
    and "ensureCapacity ((Categories s ! idx)\<lparr>Tasks :=
           insert_at i task (Tasks (Categories s ! idx))\<rparr>) = None"
  shows "capacity_ok (s\<lparr>Categories := (Categories s)[idx :=
           (Categories s ! idx)\<lparr>Tasks := insert_at i task (Tasks (Categories s ! idx))\<rparr>]\<rparr>)"
proof -
  let ?cat = "Categories s ! idx"
  let ?c1 = "?cat\<lparr>Tasks := insert_at i task (Tasks ?cat)\<rparr>"
  from assms(3) have "?cat \<in> set (Categories s)" by simp
  with assms(2,4) have "\<forall>t \<in> set (Tasks ?c1). size_ok t"
    by (simp add: set_insert_at active_sizes_ok_def)
  from ensureCapacity_sum [OF this] assms(5) have "category_sum ?c1 \<le> ColumnCapacity" by simp
  with assms(1) show ?thesis by (rule capacity_ok_update)
qed

lemma insertTask_capacity_ok:
  assumes "insertTask newid s req = (Inr t, s')" and "capacity_ok s" and "active_sizes_ok s"
  shows "capacity_ok s'"
  using assms
  by (auto simp: insertTask_def Let_def NormalizeSize_def size_ok_def findCategoryIndex_Some
        capacity_ok_def [of "s\<lparr>Backburner := x\<rparr>" for x] capacity_ok_def [of "s\<lparr>Archives := x\<rparr>" for x]
        capacity_ok_def [of s]
      intro!: insert_capacity_step [unfolded capacity_ok_def [of s]]
      split: sum.splits option.splits if_splits)


lemma CreateTask_capacity_ok:
  assumes "CreateTask newid s req = (Inr t, s')" and "capacity_ok s" and "sizes_ok s"
  shows "capacity_ok s'"
proof -
  from assms(1) have "insertTask newid s (CreateTaskRequest_Normalize req) = (Inr t, s')"
    by (auto simp: CreateTask_def Let_def split: option.splits)
  from this assms(2) sizes_ok_active [OF assms(3)] show ?thesis
    by (rule insertTask_capacity_ok)
qed

lemma TaskPatch_Apply_size_ok:
  "TaskPatch_Apply p t0 = (None, t1) \<Longrightarrow> size_ok t0 \<Longrightarrow> size_ok t1"
  by (auto simp: TaskPatch_Apply_def Let_def NormalizeSize_def size_ok_def
           split: option.splits sum.splits if_splits)

lemma UpdateTask_capacity_ok:
  assumes up: "UpdateTask s tid patch = (Inr t, s')" and cap: "capacity_ok s" and sz: "sizes_ok s"
  shows "capacity_ok s'"
proof -
  note act = sizes_ok_active [OF sz]
  from up obtain loc where loc: "findTask s tid = Some loc"
    by (cases "findTask s tid") (auto simp: UpdateTask_def)
  from up loc obtain t0 where at: "task_at s loc = Some t0"
    by (cases "task_at s loc") (auto simp: UpdateTask_def)
  from up loc at obtain t1 where ap: "TaskPatch_Apply patch t0 = (None, t1)"
    by (cases "TaskPatch_Apply patch t0") (auto simp: UpdateTask_def split: option.splits)
  from loc show ?thesis
  proof (cases rule: findTask_cases)
    case category
    let ?ci = "CategoryIndex loc" and ?ti = "TaskIndex loc"
    let ?c = "Categories s ! ?ci"
    let ?c1 = "?c\<lparr>Tasks := (Tasks ?c)[?ti := t1]\<rparr>"
    let ?s1 = "s\<lparr>Categories := (Categories s)[?ci := ?c1]\<rparr>"
    from category have s1: "set_task s loc t1 = ?s1" by (simp add: set_task_def)
    from category have cin: "?c \<in> set (Categories s)" by simp
    from at category have "t0 = Tasks ?c ! ?ti" by (simp add: task_at_def nth_opt_def)
    with category have "t0 \<in> set (Tasks ?c)" by simp
    with cin act have "size_ok t0" by (auto simp: active_sizes_ok_def)
    with ap have t1: "size_ok t1" by (rule TaskPatch_Apply_size_ok)
    from act cin t1 have "\<forall>u \<in> set (Tasks ?c1). size_ok u"
      by (auto simp: active_sizes_ok_def dest!: set_update_subset_insert [THEN subsetD])
    with act have a1: "active_sizes_ok ?s1" by (rule active_sizes_update)
    obtain u where s': "s' = normalizeUrgent ?s1 ?ci u"
      and e: "ensureCapacity (Categories (normalizeUrgent ?s1 ?ci u) ! ?ci) = None"
      using up loc at ap category(1) s1
      by (auto simp: UpdateTask_def Let_def split: option.splits if_splits)
    let ?s2 = "normalizeUrgent ?s1 ?ci u"
    from category have "Categories ?s2 ! ?ci \<in> set (Categories ?s2)" by simp
    with active_sizes_normalizeUrgent [OF a1, of ?ci u]
    have "\<forall>x \<in> set (Tasks (Categories ?s2 ! ?ci)). size_ok x"
      by (simp add: active_sizes_ok_def)
    from ensureCapacity_sum [OF this] e
    have le: "category_sum (Categories ?s2 ! ?ci) \<le> ColumnCapacity" by simp
    have sums: "map category_sum (Categories ?s2) = map category_sum (Categories ?s1)" by simp
    have "capacity_ok ?s2"
    proof (rule capacity_ok_by_index [OF cap, of _ ?ci])
      show "length (Categories ?s2) = length (Categories s)" by simp
      show "\<forall>j < length (Categories s). j \<noteq> ?ci \<longrightarrow>
              category_sum (Categories ?s2 ! j) = category_sum (Categories s ! j)"
      proof (intro allI impI)
        fix j assume j: "j < length (Categories s)" "j \<noteq> ?ci"
        then have "Categories ?s2 ! j = Categories s ! j"
          by (simp add: normalizeUrgent_def)
        then show "category_sum (Categories ?s2 ! j) = category_sum (Categories s ! j)"
          by simp
      qed
      from le show "?ci < length (Categories s) \<longrightarrow> category_sum (Categories ?s2 ! ?ci) \<le> ColumnCapacity"
        by simp
    qed
    with s' show ?thesis by simp
  next
    case backburner
    with up loc at ap have "Categories s' = Categories s"
      by (auto simp: UpdateTask_def Let_def set_task_def split: option.splits)
    with cap show ?thesis by (simp add: capacity_ok_def)
  next
    case archive
    with up loc at ap have "Categories s' = Categories s"
      by (auto simp: UpdateTask_def Let_def set_task_def split: option.splits)
    with cap show ?thesis by (simp add: capacity_ok_def)
  qed
qed


lemma DeleteTask_Categories: "Categories (snd (DeleteTask s tid)) = Categories s"
proof (cases "findTask s tid")
  case None
  then show ?thesis by (simp add: DeleteTask_def)
next
  case (Some loc)
  show ?thesis
  proof (cases "Kind loc = LocationArchive")
    case True
    from removeTask_archive [OF Some True] Some True show ?thesis
      by (auto simp: DeleteTask_def)
  next
    case False
    with Some show ?thesis by (simp add: DeleteTask_def)
  qed
qed

lemma RenameCategory_sums:
  "map category_sum (Categories (snd (RenameCategory trim s cid name)))
     = map category_sum (Categories s)"
  by (auto simp: RenameCategory_def Let_def findCategoryIndex_Some map_list_update_same
        category_sum_def split: option.splits)

lemma CreateCategory_capacity_ok:
  "CreateCategory trim newid s name = (Inr c, s') \<Longrightarrow> capacity_ok s \<Longrightarrow> capacity_ok s'"
  by (auto simp: CreateCategory_def Let_def capacity_ok_def category_sum_def ColumnCapacity_def
           split: if_splits)

lemma removeCategory_capacity_ok:
  assumes "removeCategory s cid = Some (cat, loc, s1)" and "capacity_ok s" and "sizes_ok s"
  shows "capacity_ok s1 \<and> (\<forall>t \<in> set (Tasks cat). size_ok t)"
proof -
  have mem: "\<And>xs i. findCategoryIndex xs cid = Some i \<Longrightarrow> xs ! i \<in> set xs"
    by (simp add: findCategoryIndex_Some)
  from assms(1) have "set (Categories s1) \<subseteq> set (Categories s)"
    by (auto simp: removeCategory_def dest: set_remove_at [THEN subsetD] split: option.splits)
  with assms(2) have "capacity_ok s1" by (auto simp: capacity_ok_iff)
  moreover from assms(1) have
    "cat \<in> set (Categories s) \<union> set (CategoryBackburner s) \<union> set (CategoryArchives s)"
    by (auto simp: removeCategory_def dest: mem split: option.splits)
  with assms(3) have "\<forall>t \<in> set (Tasks cat). size_ok t"
    by (auto simp: sizes_ok_def list_all_iff)
  ultimately show ?thesis by simp
qed

lemma placeCategory_capacity_ok:
  assumes "placeCategory s cat d = (None, s')" and "capacity_ok s"
    and "\<forall>t \<in> set (Tasks cat). size_ok t"
  shows "capacity_ok s'"
proof (cases "mc_Location d = LocationCategoryBoard")
  case True
  with assms(1) have e: "ensureCapacity cat = None"
    and "\<exists>k. Categories s' = insert_at k cat (Categories s)"
    by (auto simp: placeCategory_def split: if_splits option.splits)
  moreover from ensureCapacity_sum [OF assms(3)] e have "category_sum cat \<le> ColumnCapacity"
    by simp
  ultimately show ?thesis using assms(2)
    by (auto simp: capacity_ok_iff set_insert_at)
next
  case False
  with assms(1) have "Categories s' = Categories s"
    by (auto simp: placeCategory_def split: if_splits)
  with assms(2) show ?thesis by (simp add: capacity_ok_def)
qed

lemma MoveCategory_capacity_ok:
  assumes "MoveCategory s cid dest = (Inr c, s')" and "capacity_ok s" and "sizes_ok s"
  shows "capacity_ok s'"
proof -
  from assms(1) obtain cat loc s1 d where rm: "removeCategory s cid = Some (cat, loc, s1)"
    and pl: "placeCategory s1 cat d = (None, s')"
    by (auto simp: MoveCategory_def Let_def split: option.splits prod.splits)
  from removeCategory_capacity_ok [OF rm assms(2,3)] pl show ?thesis
    by (auto intro: placeCategory_capacity_ok)
qed

lemma sum_list_update_Size:
  "pos < length acc \<Longrightarrow>
     sum_list (map Size (acc[pos := t])) = sum_list (map Size acc) - Size (acc ! pos) + Size t"
proof (induction acc arbitrary: pos)
  case Nil
  then show ?case by simp
next
  case (Cons a acc)
  then show ?case by (cases pos) simp_all
qed

lemma place_tasks_sum:
  assumes "place_tasks idx ts acc = Inr r"
    and "\<forall>t \<in> set ts. 0 \<le> Size t" and "\<forall>t \<in> set acc. 0 \<le> Size t"
  shows "sum_list (map Size r) \<le> sum_list (map Size acc) + sum_list (map Size ts)"
  using assms
proof (induction ts arbitrary: acc)
  case Nil
  then show ?case by simp
next
  case (Cons t ts)
  from Cons.prems(1) obtain pos where pos: "idx (ID t) = Some pos"
    and r: "place_tasks idx ts (acc[pos := t]) = Inr r"
    by (auto split: option.splits)
  from Cons.prems(2,3) have nn: "\<forall>u \<in> set (acc[pos := t]). 0 \<le> Size u"
    by (auto dest!: set_update_subset_insert [THEN subsetD])
  from Cons.prems(2) have ts: "\<forall>u \<in> set ts. 0 \<le> Size u" by simp
  have "sum_list (map Size (acc[pos := t])) \<le> sum_list (map Size acc) + Size t"
  proof (cases "pos < length acc")
    case True
    with Cons.prems(3) have "0 \<le> Size (acc ! pos)" by simp
    with True show ?thesis by (simp add: sum_list_update_Size)
  next
    case False
    with Cons.prems(2) show ?thesis by (simp add: list_update_beyond)
  qed
  with Cons.IH [OF r ts nn] show ?case by simp
qed

lemma reorderTasks_capacity:
  assumes "reorderTasks cat order = Inr c" and "\<forall>t \<in> set (Tasks cat). size_ok t"
  shows "category_sum c \<le> category_sum cat"
proof -
  from assms(1) obtain r where r: "place_tasks (build_index order 0 Map.empty) (Tasks cat)
      (replicate (length (Tasks cat)) zeroTask) = Inr r" and c: "c = cat\<lparr>Tasks := r\<rparr>"
    by (auto simp: reorderTasks_def split: if_splits sum.splits)
  have z: "sum_list (map Size (replicate (length (Tasks cat)) zeroTask)) = 0"
    by (simp add: zeroTask_def sum_list_replicate)
  from assms(2) have "\<forall>t \<in> set (Tasks cat). 0 \<le> Size t" by (simp add: size_ok_def)
  from place_tasks_sum [OF r this] z c show ?thesis
    by (simp add: category_sum_def zeroTask_def)
qed

lemma ReorderCategoryTasks_capacity_ok:
  assumes "ReorderCategoryTasks s cid order = (Inr c, s')" and "capacity_ok s" and "sizes_ok s"
  shows "capacity_ok s'"
proof -
  from assms(1) obtain i where i: "findCategoryIndex (Categories s) cid = Some i"
    and ro: "reorderTasks (Categories s ! i) order = Inr c"
    and s': "s' = s\<lparr>Categories := (Categories s)[i := c]\<rparr>"
    by (auto simp: ReorderCategoryTasks_def split: option.splits sum.splits)
  from i have "Categories s ! i \<in> set (Categories s)" by (simp add: findCategoryIndex_Some)
  with sizes_ok_active [OF assms(3)] assms(2)
  have "\<forall>t \<in> set (Tasks (Categories s ! i)). size_ok t"
    and "category_sum (Categories s ! i) \<le> ColumnCapacity"
    by (auto simp: active_sizes_ok_def capacity_ok_iff)
  with reorderTasks_capacity [OF ro] have "category_sum c \<le> ColumnCapacity" by simp
  with assms(2) show ?thesis unfolding s' by (rule capacity_ok_update)
qed

lemma set_task_sums:
  assumes "task_at s loc = Some t" and "Size t' = Size t"
  shows "map category_sum (Categories (set_task s loc t')) = map category_sum (Categories s)"
proof (cases "Kind loc = LocationCategory")
  case True
  with assms(1) have ci: "CategoryIndex loc < length (Categories s)"
    and ti: "TaskIndex loc < length (Tasks (Categories s ! CategoryIndex loc))"
    and t: "t = Tasks (Categories s ! CategoryIndex loc) ! TaskIndex loc"
    by (auto simp: task_at_def nth_opt_def split: if_splits)
  from ti t assms(2) have "map Size ((Tasks (Categories s ! CategoryIndex loc))[TaskIndex loc := t'])
      = map Size (Tasks (Categories s ! CategoryIndex loc))"
    by (simp add: map_list_update_same)
  with True ci show ?thesis
    by (simp add: set_task_def map_list_update_same category_sum_def)
next
  case False
  then show ?thesis by (simp add: set_task_def)
qed

lemma SetFocused_capacity_ok:
  assumes "SetFocused s tid = (Inr t, s')" and "capacity_ok s"
  shows "capacity_ok s'"
proof (cases "tid = []")
  case True
  with assms show ?thesis by (auto simp: SetFocused_def)
next
  case False
  with assms(1) obtain loc t0 where at: "task_at (clearFocus s) loc = Some t0"
    and s': "s' = set_task (clearFocus s) loc (t0\<lparr>Focused := True\<rparr>)"
    by (auto simp: SetFocused_def Let_def split: option.splits)
  from set_task_sums [OF at, of "t0\<lparr>Focused := True\<rparr>"]
  have "capacity_ok s' = capacity_ok (clearFocus s)"
    unfolding s' by (intro capacity_ok_same_sums) simp
  with assms(2) show ?thesis by simp
qed


lemma perform_capacity_ok:
  assumes "perform trim newid s op = (None, s')" and "capacity_ok s" and "sizes_ok s"
  shows "capacity_ok s'"
proof (cases op)
  case (OpCreateTask req)
  with assms(1) obtain t where "CreateTask newid s req = (Inr t, s')"
    by (auto dest!: outcome_None) (metis prod.collapse)
  then show ?thesis using assms(2,3) by (rule CreateTask_capacity_ok)
next
  case (OpUpdateTask tid patch)
  with assms(1) obtain t where "UpdateTask s tid patch = (Inr t, s')"
    by (auto dest!: outcome_None) (metis prod.collapse)
  then show ?thesis using assms(2,3) by (rule UpdateTask_capacity_ok)
next
  case (OpMoveTask tid dest)
  with assms(1) obtain t where "MoveTask s tid dest = (Inr t, s')"
    by (auto dest!: outcome_None) (metis prod.collapse)
  then show ?thesis using assms(2,3) by (rule MoveTask_capacity_ok)
next
  case (OpDeleteTask tid)
  with assms(1) DeleteTask_Categories [of s tid] have "Categories s' = Categories s" by simp
  with assms(2) show ?thesis by (simp add: capacity_ok_def)
next
  case (OpCreateCategory name)
  with assms(1) obtain c where "CreateCategory trim newid s name = (Inr c, s')"
    by (auto dest!: outcome_None) (metis prod.collapse)
  then show ?thesis using assms(2) by (rule CreateCategory_capacity_ok)
next
  case (OpRenameCategory cid name)
  with assms(1) have "snd (RenameCategory trim s cid name) = s'"
    by (auto dest!: outcome_None)
  with RenameCategory_sums [of trim s cid name] assms(2) show ?thesis
    by (simp add: capacity_ok_same_sums [of s' s])
next
  case (OpMoveCategory cid dest)
  with assms(1) obtain c where "MoveCategory s cid dest = (Inr c, s')"
    by (auto dest!: outcome_None) (metis prod.collapse)
  then show ?thesis using assms(2,3) by (rule MoveCategory_capacity_ok)
next
  case (OpReorderCategoryTasks cid order)
  with assms(1) obtain c where "ReorderCategoryTasks s cid order = (Inr c, s')"
    by (auto dest!: outcome_None) (metis prod.collapse)
  then show ?thesis using assms(2,3) by (rule ReorderCategoryTasks_capacity_ok)
next
  case (OpSetFocused tid)
  with assms(1) obtain t where "SetFocused s tid = (Inr t, s')"
    by (auto dest!: outcome_None) (metis prod.collapse)
  then show ?thesis using assms(2) by (rule SetFocused_capacity_ok)
qed

lemma CreateTask_over_capacity:
  assumes act: "sizes_ok s"
    and val: "CreateTaskRequest_Validate (CreateTaskRequest_Normalize req) = None"
    and loc: "ct_Location (CreateTaskRequest_Normalize req) = LocationCategory"
    and idx: "findCategoryIndex (Categories s) (ct_CategoryID req) = Some i"
    and over: "category_sum (Categories s ! i) + Size (ct_Task req) > ColumnCapacity"
  shows "CreateTask newid s req = (Inl ErrCapacityExceeded, s)"
proof -
  let ?r = "CreateTaskRequest_Normalize req"
  have rq: "ct_Task ?r = ct_Task req" "ct_CategoryID ?r = ct_CategoryID req"
    "ct_Position ?r = ct_Position req"
    by (simp_all add: CreateTaskRequest_Normalize_def)
  from val rq have st: "ValidateTaskState (State (ct_Task req)) = None"
    and sz: "1 \<le> Size (ct_Task req)" "Size (ct_Task req) \<le> 5"
    by (auto simp: CreateTaskRequest_Validate_def NormalizeSize_def split: option.splits sum.splits if_splits)
  define task where "task = (if ID (ct_Task req) = []
      then (ct_Task req)\<lparr>ID := newid, Size := Size (ct_Task req)\<rparr>
      else (ct_Task req)\<lparr>Size := Size (ct_Task req)\<rparr>)"
  have tk: "Size task = Size (ct_Task req)" "State task = State (ct_Task req)"
    by (simp_all add: task_def)
  let ?cat = "Categories s ! i"
  let ?k = "insertIndex (ct_Position req) (length (Tasks ?cat))"
  let ?c1 = "?cat\<lparr>Tasks := insert_at ?k task (Tasks ?cat)\<rparr>"
  from idx have lt: "i < length (Categories s)" by (simp add: findCategoryIndex_Some)
  then have "?cat \<in> set (Categories s)" by simp
  with sizes_ok_active [OF act] sz tk have "\<forall>t \<in> set (Tasks ?c1). size_ok t"
    by (auto simp: active_sizes_ok_def set_insert_at size_ok_def)
  moreover from over tk have "category_sum ?c1 > ColumnCapacity"
    by (simp add: category_sum_def sum_list_insert_at)
  ultimately have e: "ensureCapacity ?c1 = Some ErrCapacityExceeded"
    by (rule ensureCapacity_exceeded)
  have rb: "s\<lparr>Categories := (Categories s)[i := ?c1\<lparr>Tasks := remove_at ?k (Tasks ?c1)\<rparr>]\<rparr> = s"
    by (simp add: remove_insert_at insertIndex_le)
  have "insertTask newid s ?r = (Inl ErrCapacityExceeded, s)"
    using sz st loc idx e rb unfolding task_def
    by (auto simp: insertTask_def rq Let_def NormalizeSize_def split: if_splits)
  with val show ?thesis by (simp add: CreateTask_def Let_def)
qed


lemma findCategoryIndex_cong:
  "map CatID cs' = map CatID cs \<Longrightarrow> findCategoryIndex cs' cid = findCategoryIndex cs cid"
proof (induction cs arbitrary: cs')
  case Nil
  then show ?case by simp
next
  case (Cons c cs)
  then obtain c' cs'' where "cs' = c' # cs''" "CatID c' = CatID c" "map CatID cs'' = map CatID cs"
    by (cases cs') auto
  with Cons.IH [of cs''] show ?case by simp
qed

lemma removeTask_categories:
  assumes rm: "removeTask s tid = Some (task, loc, s1)"
  shows "map CatID (Categories s1) = map CatID (Categories s)"
    and "\<not> (Kind loc = LocationCategory \<and> CategoryIndex loc = i) \<Longrightarrow>
           Categories s1 ! i = Categories s ! i"
proof -
  from rm have loc: "findTask s tid = Some loc"
    by (auto simp: removeTask_def split: option.splits)
  from loc have "map CatID (Categories s1) = map CatID (Categories s)
    \<and> (\<not> (Kind loc = LocationCategory \<and> CategoryIndex loc = i) \<longrightarrow>
           Categories s1 ! i = Categories s ! i)"
  proof (cases rule: findTask_cases)
    case category
    from rm loc category have s1: "s1 = s\<lparr>Categories := (Categories s)[CategoryIndex loc :=
        (Categories s ! CategoryIndex loc)\<lparr>Tasks :=
           remove_at (TaskIndex loc) (Tasks (Categories s ! CategoryIndex loc))\<rparr>]\<rparr>"
      by (auto simp: removeTask_def split: option.splits)
    with category show ?thesis by (simp add: map_list_update_same)
  next
    case backburner
    with rm loc have "Categories s1 = Categories s"
      by (auto simp: removeTask_def split: option.splits)
    then show ?thesis by simp
  next
    case archive
    with rm loc have "Categories s1 = Categories s"
      by (auto simp: removeTask_def split: option.splits)
    then show ?thesis by simp
  qed
  then show "map CatID (Categories s1) = map CatID (Categories s)"
    and "\<not> (Kind loc = LocationCategory \<and> CategoryIndex loc = i) \<Longrightarrow>
           Categories s1 ! i = Categories s ! i"
    by simp_all
qed

lemma restoreTask_after_remove:
  assumes rm: "removeTask s tid = Some (task, loc, s1)"
  shows "\<exists>s3. restoreTask (normalizeUrgent s1 idx u) task loc = Some s3"
proof -
  from rm have loc: "findTask s tid = Some loc"
    by (auto simp: removeTask_def split: option.splits)
  from removeTask_categories(1) [OF rm] have len: "length (Categories s1) = length (Categories s)"
    by (rule map_eq_imp_length_eq)
  from loc show ?thesis
  proof (cases rule: findTask_cases)
    case category
    with len show ?thesis by (simp add: restoreTask_def nth_opt_def)
  next
    case backburner
    with rm loc have "Backburner s1 = remove_at (TaskIndex loc) (Backburner s)"
      by (auto simp: removeTask_def split: option.splits)
    with backburner show ?thesis by (simp add: restoreTask_def length_remove_at)
  next
    case archive
    with rm loc have "Archives s1 = remove_at (TaskIndex loc) (Archives s)"
      by (auto simp: removeTask_def split: option.splits)
    with archive show ?thesis by (simp add: restoreTask_def length_remove_at)
  qed
qed

lemma placeTask_category_eq:
  assumes "MoveTaskRequest_Validate (MoveTaskRequest_Normalize d) = None"
    and "mv_Location (MoveTaskRequest_Normalize d) = LocationCategory"
    and "findCategoryIndex (Categories s) (mv_CategoryID (MoveTaskRequest_Normalize d)) = Some idx"
    and "s1 = normalizeUrgent s idx (if Urgent task then ID task else [])"
    and "c1 = (Categories s1 ! idx)\<lparr>Tasks :=
           insert_at (insertIndex (mv_Position (MoveTaskRequest_Normalize d))
                        (length (Tasks (Categories s ! idx))))
             (task\<lparr>Focused := False, SourceID := [], Source := []\<rparr>)
             (Tasks (Categories s1 ! idx))\<rparr>"
  shows "placeTask s task d =
     (case ensureCapacity c1 of
        Some e \<Rightarrow> (Some e, s1\<lparr>Categories := (Categories s1)[idx :=
                     c1\<lparr>Tasks := remove_at (insertIndex (mv_Position (MoveTaskRequest_Normalize d))
                        (length (Tasks (Categories s ! idx)))) (Tasks c1)\<rparr>]\<rparr>)
      | None \<Rightarrow> (None, s1\<lparr>Categories := (Categories s1)[idx := c1]\<rparr>))"
  using assms(1,2,3) unfolding assms(4,5)
  by (simp add: placeTask_def Let_def split del: if_split cong: if_cong option.case_cong)

lemma removeTask_sizes_ok:
  assumes rm: "removeTask s tid = Some (task, loc, s1)" and sz: "sizes_ok s"
  shows "size_ok task \<and> active_sizes_ok s1"
proof -
  from rm have loc: "findTask s tid = Some loc" and at: "task_at s loc = Some task"
    by (auto simp: removeTask_def split: option.splits)
  note act = sizes_ok_active [OF sz]
  from loc show ?thesis
  proof (cases rule: findTask_cases)
    case category
    let ?c = "Categories s ! CategoryIndex loc"
    from category have cin: "?c \<in> set (Categories s)" by simp
    from at category have "task \<in> set (Tasks ?c)"
      by (auto simp: task_at_def nth_opt_def)
    with cin act have ok: "size_ok task" by (auto simp: active_sizes_ok_def)
    from rm loc category have s1: "s1 = s\<lparr>Categories := (Categories s)[CategoryIndex loc :=
        ?c\<lparr>Tasks := remove_at (TaskIndex loc) (Tasks ?c)\<rparr>]\<rparr>"
      by (auto simp: removeTask_def split: option.splits)
    from act cin
    have "\<forall>t \<in> set (Tasks (?c\<lparr>Tasks := remove_at (TaskIndex loc) (Tasks ?c)\<rparr>)). size_ok t"
      using set_remove_at [of "TaskIndex loc" "Tasks ?c"] by (auto simp: active_sizes_ok_def)
    with act have "active_sizes_ok s1" unfolding s1 by (rule active_sizes_update)
    with ok show ?thesis by simp
  next
    case backburner
    from rm loc backburner have "Categories s1 = Categories s"
      by (auto simp: removeTask_def split: option.splits)
    moreover from at backburner have "task \<in> set (Backburner s)"
      by (auto simp: task_at_def nth_opt_def)
    ultimately show ?thesis using act sz
      by (auto simp: active_sizes_ok_def sizes_ok_def list_all_iff)
  next
    case archive
    from rm loc archive have "Categories s1 = Categories s"
      by (auto simp: removeTask_def split: option.splits)
    moreover from at archive have "task \<in> set (Archives s)"
      by (auto simp: task_at_def nth_opt_def)
    ultimately show ?thesis using act sz
      by (auto simp: active_sizes_ok_def sizes_ok_def list_all_iff)
  qed
qed

lemma MoveTask_over_capacity:
  assumes sz: "sizes_ok s" and loc: "findTask s tid = Some loc" and at: "task_at s loc = Some task"
    and dl: "mv_Location dest = [] \<or> mv_Location dest = LocationCategory"
    and dc: "mv_CategoryID dest \<noteq> []"
    and idx: "findCategoryIndex (Categories s) (mv_CategoryID dest) = Some i"
    and other: "\<not> (Kind loc = LocationCategory \<and> CategoryIndex loc = i)"
    and over: "category_sum (Categories s ! i) + Size task > ColumnCapacity"
  shows "fst (MoveTask s tid dest) = Inl ErrCapacityExceeded"
proof -
  let ?d = "MoveTaskRequest_Normalize dest"
  from loc at obtain s1 where rm: "removeTask s tid = Some (task, loc, s1)"
    by (simp add: removeTask_def)
  note cats = removeTask_categories [OF rm]
  from findCategoryIndex_cong [OF cats(1)] idx
  have idx1: "findCategoryIndex (Categories s1) (mv_CategoryID dest) = Some i" by simp
  then have lt: "i < length (Categories s1)" by (simp add: findCategoryIndex_Some)
  from dl have dloc: "mv_Location ?d = LocationCategory"
    and dcid: "mv_CategoryID ?d = mv_CategoryID dest"
    by (auto simp: MoveTaskRequest_Normalize_def)
  with dc have val: "MoveTaskRequest_Validate ?d = None"
    by (simp add: MoveTaskRequest_Validate_def)
  from dl have nb: "mv_Location dest \<noteq> LocationBackburner" "mv_Location dest \<noteq> LocationArchive"
    by (auto simp: LocationBackburner_def LocationArchive_def LocationCategory_def)
  define s2 where "s2 = normalizeUrgent s1 i (if Urgent task then ID task else [])"
  define c1 where "c1 = (Categories s2 ! i)\<lparr>Tasks :=
           insert_at (insertIndex (mv_Position ?d) (length (Tasks (Categories s1 ! i))))
             (task\<lparr>Focused := False, SourceID := [], Source := []\<rparr>)
             (Tasks (Categories s2 ! i))\<rparr>"
  note eq = placeTask_category_eq [OF val dloc idx1 [folded dcid] s2_def c1_def]
  from removeTask_sizes_ok [OF rm sz] have ok: "size_ok task" and act1: "active_sizes_ok s1"
    by simp_all
  have act2: "active_sizes_ok s2"
    unfolding s2_def using act1 by (rule active_sizes_normalizeUrgent)
  have lt2: "i < length (Categories s2)" using lt by (simp add: s2_def)
  then have "Categories s2 ! i \<in> set (Categories s2)" by simp
  with act2 ok have tasks: "\<forall>t \<in> set (Tasks c1). size_ok t"
    by (auto simp: c1_def set_insert_at active_sizes_ok_def size_ok_def)
  have "map category_sum (Categories s2) ! i = map category_sum (Categories s1) ! i"
    by (simp add: s2_def)
  with lt lt2 have "category_sum (Categories s2 ! i) = category_sum (Categories s1 ! i)"
    by simp
  with cats(2) [OF other] over have "category_sum c1 > ColumnCapacity"
    by (simp add: c1_def category_sum_def sum_list_insert_at)
  with tasks have "ensureCapacity c1 = Some ErrCapacityExceeded"
    by (rule ensureCapacity_exceeded)
  with eq obtain x where pl: "placeTask s1 task dest = (Some ErrCapacityExceeded, x)"
    by simp
  from placeTask_capacity [OF pl] obtain idx' u' where "x = normalizeUrgent s1 idx' u'"
    by blast
  with restoreTask_after_remove [OF rm, of idx' u'] obtain s3 where
    "restoreTask x task loc = Some s3" by auto
  with rm pl nb show ?thesis
    by (simp add: MoveTask_def Let_def)
qed

lemma restoreCategory_after_remove:
  assumes "removeCategory s cid = Some (cat, loc, s1)"
  shows "restoreCategory s1 cat loc = Some s"
proof (cases "findCategoryIndex (Categories s) cid")
  case (Some i)
  then have i: "i < length (Categories s)" by (simp add: findCategoryIndex_Some)
  from assms Some have r: "cat = Categories s ! i"
    "loc = \<lparr>cl_Kind = LocationCategoryBoard, cl_Index = i\<rparr>"
    "s1 = s\<lparr>Categories := remove_at i (Categories s)\<rparr>"
    by (simp_all add: removeCategory_def)
  have "remove_at i (Categories s) @ [Categories s ! i] = Categories s"
    if "length (Categories s) - 1 \<le> i"
  proof -
    from that i have "Suc i = length (Categories s)" by simp
    then show ?thesis
      by (simp add: remove_at_def take_Suc_conv_app_nth [OF i, symmetric])
  qed
  with i show ?thesis
    by (simp add: r restoreCategory_def length_remove_at insert_remove_at)
next
  case None
  note nb = this
  show ?thesis
  proof (cases "findCategoryIndex (CategoryBackburner s) cid")
    case (Some i)
    then have i: "i < length (CategoryBackburner s)" by (simp add: findCategoryIndex_Some)
    from assms nb Some have r: "cat = CategoryBackburner s ! i"
      "loc = \<lparr>cl_Kind = LocationBackburner, cl_Index = i\<rparr>"
      "s1 = s\<lparr>CategoryBackburner := remove_at i (CategoryBackburner s)\<rparr>"
      by (simp_all add: removeCategory_def)
    with i show ?thesis
      by (simp add: restoreCategory_def length_remove_at insert_remove_at)
  next
    case None
    with assms nb obtain i where a: "findCategoryIndex (CategoryArchives s) cid = Some i"
      by (cases "findCategoryIndex (CategoryArchives s) cid") (simp_all add: removeCategory_def)
    then have i: "i < length (CategoryArchives s)" by (simp add: findCategoryIndex_Some)
    from assms nb None a have r: "cat = CategoryArchives s ! i"
      "loc = \<lparr>cl_Kind = LocationArchive, cl_Index = i\<rparr>"
      "s1 = s\<lparr>CategoryArchives := remove_at i (CategoryArchives s)\<rparr>"
      by (simp_all add: removeCategory_def)
    with i show ?thesis
      by (simp add: restoreCategory_def length_remove_at insert_remove_at)
  qed
qed

lemma MoveCategory_over_capacity:
  assumes sz: "sizes_ok s" and rm: "removeCategory s cid = Some (cat, loc, s1)"
    and dl: "mc_Location dest = [] \<or> mc_Location dest = LocationCategoryBoard"
    and room: "length (Categories s1) < CategoryLimit"
    and over: "category_sum cat > ColumnCapacity"
  shows "MoveCategory s cid dest = (Inl ErrCapacityExceeded, s)"
proof -
  let ?d = "MoveCategoryRequest_Normalize dest"
  from dl have dloc: "mc_Location ?d = LocationCategoryBoard"
    by (auto simp: MoveCategoryRequest_Normalize_def)
  then have val: "MoveCategoryRequest_Validate ?d = None"
    by (simp add: MoveCategoryRequest_Validate_def)
  have mem: "\<And>xs i. findCategoryIndex xs cid = Some i \<Longrightarrow> xs ! i \<in> set xs"
    by (simp add: findCategoryIndex_Some)
  from rm have
    "cat \<in> set (Categories s) \<union> set (CategoryBackburner s) \<union> set (CategoryArchives s)"
    by (auto simp: removeCategory_def dest: mem split: option.splits)
  with sz have "\<forall>t \<in> set (Tasks cat). size_ok t"
    by (auto simp: sizes_ok_def list_all_iff)
  from ensureCapacity_exceeded [OF this over] dloc room
  have "placeCategory s1 cat ?d = (Some ErrCapacityExceeded, s1)"
    by (simp add: placeCategory_def)
  with val rm restoreCategory_after_remove [OF rm] show ?thesis
    by (simp add: MoveCategory_def Let_def)
qed


section \<open>The size range\<close>

text \<open>
  No operation writes a size outside \<open>0..5\<close>: whatever an operation returns, a board
  whose sizes all lie in that range is left as one whose sizes all lie in it.  (The
  zero tasks a reordering with duplicate IDs leaves behind have size \<open>0\<close>.)
\<close>

lemma sizes_ok_parts:
  "sizes_ok s = (cats_ok (Categories s) \<and> cats_ok (CategoryBackburner s)
     \<and> cats_ok (CategoryArchives s) \<and> tasks_ok (Backburner s) \<and> tasks_ok (Archives s))"
  by (auto simp: sizes_ok_def cats_ok_def tasks_ok_def list_all_iff)

lemma tasks_ok_simps [simp]:
  "tasks_ok []"
  "tasks_ok (insert_at i t ts) = (size_ok t \<and> tasks_ok ts)"
  "tasks_ok (ts @ [t]) = (tasks_ok ts \<and> size_ok t)"
  by (auto simp: tasks_ok_def set_insert_at)

lemma tasks_ok_remove_at [simp]: "tasks_ok ts \<Longrightarrow> tasks_ok (remove_at i ts)"
  using set_remove_at [of i ts] by (auto simp: tasks_ok_def)

lemma tasks_ok_update [simp]: "tasks_ok ts \<Longrightarrow> size_ok t \<Longrightarrow> tasks_ok (ts[i := t])"
  by (auto simp: tasks_ok_def dest!: set_update_subset_insert [THEN subsetD])

lemma tasks_ok_map: "(\<And>t. Size (f t) = Size t) \<Longrightarrow> tasks_ok (map f ts) = tasks_ok ts"
  by (auto simp: tasks_ok_def size_ok_def)

lemma tasks_ok_flags [simp]:
  "tasks_ok (map unfocus ts) = tasks_ok ts"
  "tasks_ok (map (\<lambda>t. t\<lparr>Urgent := u t\<rparr>) ts) = tasks_ok ts"
  "tasks_ok (map (\<lambda>t. t\<lparr>Focused := g t\<rparr>) ts) = tasks_ok ts"
  by (simp_all add: tasks_ok_map unfocus_def)

lemma tasks_ok_nth: "tasks_ok ts \<Longrightarrow> i < length ts \<Longrightarrow> size_ok (ts ! i)"
  by (simp add: tasks_ok_def)

lemma cats_ok_simps [simp]:
  "cats_ok []"
  "cats_ok (insert_at i c cs) = (tasks_ok (Tasks c) \<and> cats_ok cs)"
  "cats_ok (cs @ [c]) = (cats_ok cs \<and> tasks_ok (Tasks c))"
  by (auto simp: cats_ok_def set_insert_at)

lemma cats_ok_remove_at [simp]: "cats_ok cs \<Longrightarrow> cats_ok (remove_at i cs)"
  using set_remove_at [of i cs] by (auto simp: cats_ok_def)

lemma cats_ok_update [simp]: "cats_ok cs \<Longrightarrow> tasks_ok (Tasks c) \<Longrightarrow> cats_ok (cs[i := c])"
  by (auto simp: cats_ok_def dest!: set_update_subset_insert [THEN subsetD])

lemma cats_ok_nth: "cats_ok cs \<Longrightarrow> i < length cs \<Longrightarrow> tasks_ok (Tasks (cs ! i))"
  by (simp add: cats_ok_def)

lemma cats_ok_map: "(\<And>c. tasks_ok (Tasks (g c)) = tasks_ok (Tasks c)) \<Longrightarrow> cats_ok (map g cs) = cats_ok cs"
  by (simp add: cats_ok_def)

lemma cats_ok_clear [simp]: "cats_ok (map clearCategoryFocus cs) = cats_ok cs"
  by (simp add: cats_ok_map clearCategoryFocus_def)

lemma tasks_ok_clearCategoryFocus [simp]:
  "tasks_ok (Tasks (clearCategoryFocus c)) = tasks_ok (Tasks c)"
  by (simp add: clearCategoryFocus_def)

lemma sizes_ok_clearFocus [simp]: "sizes_ok (clearFocus s) = sizes_ok s"
  by (simp add: sizes_ok_parts clearFocus_def)

lemma sizes_ok_normalizeFocus [simp]: "sizes_ok (normalizeFocus s f) = sizes_ok s"
  by (simp add: sizes_ok_parts normalizeFocus_def cats_ok_map)

lemma sizes_ok_normalizeUrgent [simp]: "sizes_ok s \<Longrightarrow> sizes_ok (normalizeUrgent s i u)"
proof (cases "i < length (Categories s)")
  case True
  assume "sizes_ok s"
  with True show ?thesis
    by (simp add: sizes_ok_parts normalizeUrgent_def cats_ok_nth)
next
  case False
  assume "sizes_ok s"
  with False show ?thesis by (simp add: normalizeUrgent_def list_update_beyond)
qed

lemma sizes_ok_set_task:
  assumes "sizes_ok s" and "size_ok t" and "\<exists>t0. task_at s loc = Some t0"
  shows "sizes_ok (set_task s loc t)"
  using assms unfolding task_at_Some_iff
  by (auto simp: sizes_ok_parts set_task_def cats_ok_nth split: if_splits)


lemma sizes_ok_cat: "sizes_ok s \<Longrightarrow> findCategoryIndex (Categories s) cid = Some i \<Longrightarrow>
    tasks_ok (Tasks (Categories s ! i))"
  by (simp add: sizes_ok_parts cats_ok_nth findCategoryIndex_Some)

lemma sizes_ok_insert:
  "sizes_ok s \<Longrightarrow> size_ok t \<Longrightarrow> idx < length (Categories s) \<Longrightarrow>
     sizes_ok (s\<lparr>Categories := (Categories s)[idx :=
        (Categories s ! idx)\<lparr>Tasks := insert_at i t (Tasks (Categories s ! idx))\<rparr>]\<rparr>)"
  by (simp add: sizes_ok_parts cats_ok_nth)

lemma sizes_ok_append:
  "sizes_ok s \<Longrightarrow> size_ok t \<Longrightarrow> sizes_ok (s\<lparr>Backburner := Backburner s @ [t]\<rparr>)"
  "sizes_ok s \<Longrightarrow> size_ok t \<Longrightarrow> sizes_ok (s\<lparr>Archives := Archives s @ [t]\<rparr>)"
  by (simp_all add: sizes_ok_parts)

lemma insertTask_sizes_ok:
  assumes "sizes_ok s"
  shows "sizes_ok (snd (insertTask newid s req))"
proof (cases "fst (insertTask newid s req)")
  case (Inl e)
  then have "insertTask newid s req = (Inl e, snd (insertTask newid s req))"
    by (metis prod.collapse)
  from insertTask_error_unchanged [OF this] assms show ?thesis by simp
next
  case (Inr t)
  then have "insertTask newid s req = (Inr t, snd (insertTask newid s req))"
    by (metis prod.collapse)
  with assms show ?thesis
    by (auto simp: insertTask_def Let_def NormalizeSize_def size_ok_def findCategoryIndex_Some
          intro!: sizes_ok_normalizeUrgent sizes_ok_insert sizes_ok_append
          split: sum.splits option.splits if_splits)
qed

lemma insertTask_size_ok:
  "insertTask newid s req = (Inr t, s') \<Longrightarrow> size_ok t"
  by (auto simp: insertTask_def Let_def NormalizeSize_def size_ok_def
        split: sum.splits option.splits if_splits)

lemma CreateTask_sizes_ok: "sizes_ok s \<Longrightarrow> sizes_ok (snd (CreateTask newid s req))"
  by (simp add: CreateTask_def Let_def insertTask_sizes_ok split: option.splits)

lemma task_at_size_ok:
  assumes "sizes_ok s" and "task_at s loc = Some t"
  shows "size_ok t"
  using assms
  by (auto simp: task_at_def nth_opt_def sizes_ok_parts cats_ok_nth tasks_ok_nth
        split: if_splits)

lemma TaskPatch_Apply_keeps_size:
  "TaskPatch_Apply p t0 = (r, t1) \<Longrightarrow> size_ok t0 \<Longrightarrow> size_ok t1"
  by (auto simp: TaskPatch_Apply_def Let_def NormalizeSize_def size_ok_def
           split: option.splits sum.splits if_splits)

lemma UpdateTask_sizes_ok:
  assumes "sizes_ok s"
  shows "sizes_ok (snd (UpdateTask s tid patch))"
proof (cases "findTask s tid")
  case None
  with assms show ?thesis by (simp add: UpdateTask_def)
next
  case (Some loc)
  show ?thesis
  proof (cases "task_at s loc")
    case None
    with Some assms show ?thesis by (simp add: UpdateTask_def)
  next
    case at: (Some t0)
    obtain r t1 where ap: "TaskPatch_Apply patch t0 = (r, t1)" by (cases "TaskPatch_Apply patch t0")
    from task_at_size_ok [OF assms at] have "size_ok t0" .
    from TaskPatch_Apply_keeps_size [OF ap this] have "size_ok t1" .
    with assms at have s1: "sizes_ok (set_task s loc t1)"
      by (intro sizes_ok_set_task) auto
    with Some at ap show ?thesis
      by (cases r) (simp_all add: UpdateTask_def Let_def split: option.splits)
  qed
qed

lemma removeTask_keeps_sizes:
  assumes "removeTask s tid = Some (task, loc, s1)" and "sizes_ok s"
  shows "size_ok task \<and> sizes_ok s1"
proof -
  from assms(1) have at: "task_at s loc = Some task"
    by (auto simp: removeTask_def split: option.splits)
  from task_at_size_ok [OF assms(2) at] have "size_ok task" .
  moreover from at have "\<exists>t. task_at s loc = Some t" by blast
  then have "sizes_ok s1"
    using assms unfolding task_at_Some_iff
    by (auto simp: removeTask_def sizes_ok_parts cats_ok_nth split: option.splits if_splits)
  ultimately show ?thesis by simp
qed

lemma tasks_ok_normalizeUrgent_nth:
  assumes "sizes_ok s" and "i < length (Categories s)"
  shows "tasks_ok (Tasks (Categories (normalizeUrgent s j u) ! i))"
proof -
  from assms(1) have "sizes_ok (normalizeUrgent s j u)" by (rule sizes_ok_normalizeUrgent)
  with assms(2) show ?thesis by (simp add: sizes_ok_parts cats_ok_nth)
qed

lemma placeTask_keeps_sizes:
  assumes "sizes_ok s" and "size_ok task"
  shows "sizes_ok (snd (placeTask s task dest))"
proof -
  have flags: "size_ok (task\<lparr>Focused := False, SourceID := a, Source := b\<rparr>)"
      "size_ok (task\<lparr>Focused := False, Urgent := False, Focused := False,
                     SourceID := a, Source := b\<rparr>)" for a b
    using assms(2) by (simp_all add: size_ok_def)
  have ins: "sizes_ok (s0\<lparr>Categories := (Categories s0)[idx :=
        (Categories s0 ! idx)\<lparr>Tasks := insert_at i t (Tasks (Categories s0 ! idx))\<rparr>]\<rparr>)"
    if "sizes_ok s0" "size_ok t" "idx < length (Categories s0)" for s0 idx i t
    using that by (rule sizes_ok_insert)
  have und: "sizes_ok (s0\<lparr>Categories := (Categories s0)[idx :=
        (Categories s0 ! idx)\<lparr>Tasks := ts\<rparr>]\<rparr>)"
    if "sizes_ok s0" "tasks_ok ts" for s0 idx ts
    using that by (simp add: sizes_ok_parts)
  show ?thesis
    using assms flags
    by (auto simp: placeTask_def Let_def findCategoryIndex_Some remove_insert_at insertIndex_le
             cats_ok_nth tasks_ok_normalizeUrgent_nth
          intro!: ins und sizes_ok_normalizeUrgent sizes_ok_append
          split: option.splits if_splits)
qed

lemma restoreTask_keeps_sizes:
  assumes "restoreTask s task loc = Some s'" and "sizes_ok s" and "size_ok task"
  shows "sizes_ok s'"
  using assms
  by (auto simp: restoreTask_def nth_opt_def sizes_ok_parts cats_ok_nth
        split: if_splits option.splits)

lemma MoveTask_sizes_ok:
  assumes "sizes_ok s"
  shows "sizes_ok (snd (MoveTask s tid dest))"
proof (cases "removeTask s tid")
  case None
  with assms show ?thesis by (simp add: MoveTask_def)
next
  case (Some r)
  then obtain task loc s1 where rm: "removeTask s tid = Some (task, loc, s1)"
    by (cases r) auto
  from removeTask_keeps_sizes [OF rm assms] have ok: "size_ok task" and s1: "sizes_ok s1"
    by simp_all
  have P: "sizes_ok s2" if "placeTask s1 task d = (e, s2)" for d e s2
    using placeTask_keeps_sizes [OF s1 ok, of d] that by simp
  have R: "sizes_ok s3" if "sizes_ok s2" "restoreTask s2 task loc = Some s3" for s2 s3
    using restoreTask_keeps_sizes [OF that(2) that(1) ok] .
  show ?thesis
    unfolding MoveTask_def Let_def rm option.case prod.case
    by (auto split: option.splits prod.splits dest: P R)
qed

lemma DeleteTask_sizes_ok:
  assumes "sizes_ok s"
  shows "sizes_ok (snd (DeleteTask s tid))"
  using assms removeTask_keeps_sizes [of s tid]
  by (auto simp: DeleteTask_def split: option.splits)

lemma RenameCategory_sizes_ok:
  assumes "sizes_ok s"
  shows "sizes_ok (snd (RenameCategory trim s cid name))"
  using assms
  by (auto simp: RenameCategory_def Let_def sizes_ok_parts findCategoryIndex_Some cats_ok_nth
        split: option.splits)

lemma CreateCategory_sizes_ok:
  assumes "sizes_ok s"
  shows "sizes_ok (snd (CreateCategory trim newid s name))"
  using assms by (auto simp: CreateCategory_def Let_def sizes_ok_parts)

lemma SetFocused_sizes_ok:
  assumes "sizes_ok s"
  shows "sizes_ok (snd (SetFocused s tid))"
proof (cases "tid = []")
  case True
  with assms show ?thesis by (simp add: SetFocused_def)
next
  case False
  show ?thesis
  proof (cases "findTask s tid")
    case None
    with False assms show ?thesis by (simp add: SetFocused_def)
  next
    case (Some loc)
    show ?thesis
    proof (cases "task_at (clearFocus s) loc")
      case None
      with False Some assms show ?thesis by (simp add: SetFocused_def Let_def)
    next
      case at: (Some t)
      from assms have c: "sizes_ok (clearFocus s)" by simp
      from task_at_size_ok [OF c at] have "size_ok (t\<lparr>Focused := True\<rparr>)"
        by (simp add: size_ok_def)
      with c at have "sizes_ok (set_task (clearFocus s) loc (t\<lparr>Focused := True\<rparr>))"
        by (intro sizes_ok_set_task) auto
      with False Some at show ?thesis by (simp add: SetFocused_def Let_def)
    qed
  qed
qed

lemma removeCategory_keeps_sizes:
  assumes "removeCategory s cid = Some (cat, loc, s1)" and "sizes_ok s"
  shows "tasks_ok (Tasks cat) \<and> sizes_ok s1"
  using assms
  by (auto simp: removeCategory_def sizes_ok_parts findCategoryIndex_Some cats_ok_nth
        split: option.splits)

lemma placeCategory_keeps_sizes:
  assumes "sizes_ok s" and "tasks_ok (Tasks cat)"
  shows "sizes_ok (snd (placeCategory s cat dest))"
  using assms
  by (auto simp: placeCategory_def sizes_ok_parts split: option.splits)

lemma restoreCategory_keeps_sizes:
  assumes "restoreCategory s cat loc = Some s'" and "sizes_ok s" and "tasks_ok (Tasks cat)"
  shows "sizes_ok s'"
  using assms
  by (auto simp: restoreCategory_def sizes_ok_parts split: if_splits)

lemma MoveCategory_sizes_ok:
  assumes "sizes_ok s"
  shows "sizes_ok (snd (MoveCategory s cid dest))"
proof (cases "removeCategory s cid")
  case None
  with assms show ?thesis by (simp add: MoveCategory_def Let_def split: option.splits)
next
  case (Some r)
  then obtain cat loc s1 where rm: "removeCategory s cid = Some (cat, loc, s1)"
    by (cases r) auto
  from removeCategory_keeps_sizes [OF rm assms] have ok: "tasks_ok (Tasks cat)"
    and s1: "sizes_ok s1" by simp_all
  have P: "sizes_ok s2" if "placeCategory s1 cat d = (e, s2)" for d e s2
    using placeCategory_keeps_sizes [OF s1 ok, of d] that by simp
  have R: "sizes_ok s3" if "sizes_ok s2" "restoreCategory s2 cat loc = Some s3" for s2 s3
    using restoreCategory_keeps_sizes [OF that(2) that(1) ok] .
  show ?thesis
    unfolding MoveCategory_def Let_def rm option.case prod.case
    using assms by (auto split: option.splits prod.splits dest: P R)
qed

lemma place_tasks_set:
  "place_tasks idx ts acc = Inr r \<Longrightarrow> set r \<subseteq> set acc \<union> set ts"
proof (induction ts arbitrary: acc)
  case Nil
  then show ?case by simp
next
  case (Cons t ts)
  then obtain pos where "idx (ID t) = Some pos"
    and "place_tasks idx ts (acc[pos := t]) = Inr r"
    by (auto split: option.splits)
  from Cons.IH [OF this(2)] set_update_subset_insert [of acc pos t]
  show ?case by auto
qed

lemma reorderTasks_keeps_sizes:
  assumes "reorderTasks cat order = Inr cat'" and "tasks_ok (Tasks cat)"
  shows "tasks_ok (Tasks cat')"
proof -
  from assms(1) obtain r where r: "place_tasks (build_index order 0 Map.empty) (Tasks cat)
        (replicate (length (Tasks cat)) zeroTask) = Inr r" and c: "cat' = cat\<lparr>Tasks := r\<rparr>"
    by (auto simp: reorderTasks_def split: if_splits sum.splits)
  have "size_ok zeroTask" by (simp add: size_ok_def zeroTask_def)
  with place_tasks_set [OF r] assms(2) show ?thesis
    unfolding c by (auto simp: tasks_ok_def)
qed

lemma ReorderCategoryTasks_sizes_ok:
  assumes "sizes_ok s"
  shows "sizes_ok (snd (ReorderCategoryTasks s cid order))"
  using assms reorderTasks_keeps_sizes
  by (auto simp: ReorderCategoryTasks_def sizes_ok_parts findCategoryIndex_Some cats_ok_nth
        split: option.splits sum.splits)

lemma perform_sizes_ok:
  assumes "sizes_ok s"
  shows "sizes_ok (snd (perform trim newid s op))"
  using assms
  by (cases op)
     (simp_all add: outcome_def CreateTask_sizes_ok UpdateTask_sizes_ok MoveTask_sizes_ok
        DeleteTask_sizes_ok CreateCategory_sizes_ok RenameCategory_sizes_ok
        MoveCategory_sizes_ok ReorderCategoryTasks_sizes_ok SetFocused_sizes_ok)

text \<open>
  C3, amended.  A board on which every task size lies in \<open>0..5\<close> keeps that property
  through every operation, and from such a board on which every active category sums
  to at most five points, every successful operation leads to a board on which every
  active category sums to at most five.  With all sizes in \<open>0..5\<close>:
  a \<open>CreateTask\<close> with a valid request for an active category that would then hold more
  than five points fails with \<open>ErrCapacityExceeded\<close> and leaves the board unchanged; a
  \<open>MoveTask\<close> of a task into another active category that would then hold more than
  five points fails with \<open>ErrCapacityExceeded\<close>; and a \<open>MoveCategory\<close> to the board of a
  category that holds more than five points fails with \<open>ErrCapacityExceeded\<close> and leaves
  the board unchanged, provided the board without that category has fewer than five
  categories.
\<close>

theorem column_capacity:
  "(sizes_ok s \<longrightarrow> sizes_ok (snd (perform trim newid s op)))
   \<and> (sizes_ok s \<and> capacity_ok s \<and> perform trim newid s op = (None, s') \<longrightarrow> capacity_ok s')
   \<and> (sizes_ok s
        \<and> CreateTaskRequest_Validate (CreateTaskRequest_Normalize req) = None
        \<and> ct_Location (CreateTaskRequest_Normalize req) = LocationCategory
        \<and> findCategoryIndex (Categories s) (ct_CategoryID req) = Some i
        \<and> category_sum (Categories s ! i) + Size (ct_Task req) > ColumnCapacity
      \<longrightarrow> CreateTask newid s req = (Inl ErrCapacityExceeded, s))
   \<and> (sizes_ok s
        \<and> findTask s tid = Some loc \<and> task_at s loc = Some task
        \<and> (mv_Location dest = [] \<or> mv_Location dest = LocationCategory)
        \<and> mv_CategoryID dest \<noteq> []
        \<and> findCategoryIndex (Categories s) (mv_CategoryID dest) = Some j
        \<and> \<not> (Kind loc = LocationCategory \<and> CategoryIndex loc = j)
        \<and> category_sum (Categories s ! j) + Size task > ColumnCapacity
      \<longrightarrow> fst (MoveTask s tid dest) = Inl ErrCapacityExceeded)
   \<and> (sizes_ok s
        \<and> removeCategory s cid = Some (cat, cloc, s1)
        \<and> (mc_Location cdest = [] \<or> mc_Location cdest = LocationCategoryBoard)
        \<and> length (Categories s1) < CategoryLimit
        \<and> category_sum cat > ColumnCapacity
      \<longrightarrow> MoveCategory s cid cdest = (Inl ErrCapacityExceeded, s))"
  using perform_sizes_ok [of s trim newid op]
    perform_capacity_ok [of trim newid s op s']
    CreateTask_over_capacity [of s req i newid]
    MoveTask_over_capacity [of s tid loc task dest j]
    MoveCategory_over_capacity [of s cid cat cloc s1 cdest]
  by blast

text \<open>
  C3, as the claim states it, fails: \<^verbatim>\<open>placeCategory\<close> checks the category ceiling before
  the capacity, so on a board of five a parked category of six points is rejected with
  \<open>ErrCategoryLimit\<close>, not with \<open>ErrCapacityExceeded\<close>.
\<close>

theorem column_capacity_counterexample:
  "sizes_ok boardFull \<and> capacity_ok boardFull
   \<and> category_sum (CategoryBackburner boardFull ! 0) = 6
   \<and> MoveCategory boardFull ''d6'' \<lparr>mc_Location = ''board'', mc_Position = None\<rparr>
       = (Inl ErrCategoryLimit, boardFull)"
  by code_simp


theorem column_capacity_witness:
  "sizes_ok boardA \<and> capacity_ok boardA
   \<and> fst (perform TrimSpace ''n1'' boardA (OpMoveTask ''t4'' (moveTo ''category'' ''c1''))) = None
   \<and> sizes_ok (snd (perform TrimSpace ''n1'' boardA (OpMoveTask ''t4'' (moveTo ''category'' ''c1''))))
   \<and> capacity_ok (snd (perform TrimSpace ''n1'' boardA (OpMoveTask ''t4'' (moveTo ''category'' ''c1''))))
   \<and> category_sum (Categories boardA ! 0) + Size (ct_Task newTaskRequest) = 6
   \<and> CreateTask ''n1'' boardA newTaskRequest = (Inl ErrCapacityExceeded, boardA)
   \<and> task_at boardA \<lparr>Kind = ''category'', CategoryIndex = 1, TaskIndex = 0\<rparr> = Some (mkTask ''t3'' 5)
   \<and> fst (MoveTask boardA ''t3'' (moveTo ''category'' ''c1'')) = Inl ErrCapacityExceeded
   \<and> category_sum (CategoryBackburner boardA ! 0) = 6
   \<and> MoveCategory boardA ''c3'' \<lparr>mc_Location = ''board'', mc_Position = None\<rparr>
       = (Inl ErrCapacityExceeded, boardA)"
proof -
  let ?op = "OpMoveTask ''t4'' (moveTo ''category'' ''c1'')"
  let ?r = "perform TrimSpace ''n1'' boardA ?op"
  let ?L = "\<lparr>Kind = ''category'', CategoryIndex = 1, TaskIndex = 0\<rparr>"
  let ?cd = "\<lparr>mc_Location = ''board'', mc_Position = None\<rparr>"
  let ?cl = "\<lparr>cl_Kind = ''backburner'', cl_Index = 0\<rparr>"
  have sz: "sizes_ok boardA" by code_simp
  have cap: "capacity_ok boardA" by code_simp
  have a1: "fst ?r = None" by code_simp
  then have a2: "?r = (None, snd ?r)" by (metis prod.collapse)
  have b1: "CreateTaskRequest_Validate (CreateTaskRequest_Normalize newTaskRequest) = None"
    by code_simp
  have b2: "ct_Location (CreateTaskRequest_Normalize newTaskRequest) = LocationCategory"
    by code_simp
  have b3: "findCategoryIndex (Categories boardA) (ct_CategoryID newTaskRequest) = Some 0"
    by code_simp
  have b4: "category_sum (Categories boardA ! 0) + Size (ct_Task newTaskRequest) = 6"
    by code_simp
  have c1: "findTask boardA ''t3'' = Some ?L" by code_simp
  have c2: "task_at boardA ?L = Some (mkTask ''t3'' 5)" by code_simp
  have c3: "mv_Location (moveTo ''category'' ''c1'') = LocationCategory" by code_simp
  have c4: "mv_CategoryID (moveTo ''category'' ''c1'') \<noteq> []" by code_simp
  have c5: "findCategoryIndex (Categories boardA) (mv_CategoryID (moveTo ''category'' ''c1'')) = Some 0"
    by code_simp
  have c6: "\<not> (Kind ?L = LocationCategory \<and> CategoryIndex ?L = 0)" by simp
  have c7: "category_sum (Categories boardA ! 0) + Size (mkTask ''t3'' 5) = 9" by code_simp
  have d1: "removeCategory boardA ''c3''
      = Some (CategoryBackburner boardA ! 0, ?cl, boardA\<lparr>CategoryBackburner := []\<rparr>)"
    by code_simp
  have d2: "mc_Location ?cd = LocationCategoryBoard" by code_simp
  have d3: "length (Categories (boardA\<lparr>CategoryBackburner := []\<rparr>)) < CategoryLimit" by code_simp
  have d4: "category_sum (CategoryBackburner boardA ! 0) = 6" by code_simp
  note th = column_capacity [of boardA TrimSpace "''n1''" ?op "snd ?r" newTaskRequest 0
      "''t3''" ?L "mkTask ''t3'' 5" "moveTo ''category'' ''c1''" 0
      "''c3''" "CategoryBackburner boardA ! 0" ?cl "boardA\<lparr>CategoryBackburner := []\<rparr>" ?cd]
  from th sz cap a2 have r1: "capacity_ok (snd ?r)" by blast
  from th sz have r0: "sizes_ok (snd ?r)" by blast
  from th sz b1 b2 b3 b4 have r2: "CreateTask ''n1'' boardA newTaskRequest = (Inl ErrCapacityExceeded, boardA)"
    by (simp add: ColumnCapacity_def)
  from th sz c1 c2 c3 c4 c5 c6 c7
  have r3: "fst (MoveTask boardA ''t3'' (moveTo ''category'' ''c1'')) = Inl ErrCapacityExceeded"
    by (simp add: ColumnCapacity_def)
  from th sz d1 d2 d3 d4
  have r4: "MoveCategory boardA ''c3'' ?cd = (Inl ErrCapacityExceeded, boardA)"
    by (simp add: ColumnCapacity_def)
  from sz cap a1 r0 r1 b4 r2 c2 r3 d4 r4 show ?thesis by simp
qed

section \<open>Operations that fail without writing\<close>

lemma placeCategory_error_unchanged:
  "placeCategory s cat d = (Some e, s') \<Longrightarrow> s' = s"
  by (auto simp: placeCategory_def split: if_splits option.splits)

lemma MoveCategory_error_unchanged:
  assumes "MoveCategory s cid dest = (Inl e, s')"
  shows "s' = s"
proof (cases "MoveCategoryRequest_Validate (MoveCategoryRequest_Normalize dest)")
  case (Some v)
  with assms show ?thesis by (simp add: MoveCategory_def Let_def)
next
  case None
  note val = this
  show ?thesis
  proof (cases "removeCategory s cid")
    case None
    with assms val show ?thesis by (simp add: MoveCategory_def Let_def)
  next
    case (Some r)
    obtain cat loc s1 where r: "r = (cat, loc, s1)" by (cases r)
    note rm = Some [unfolded r]
    obtain eo s2 where pl: "placeCategory s1 cat (MoveCategoryRequest_Normalize dest) = (eo, s2)"
      by (cases "placeCategory s1 cat (MoveCategoryRequest_Normalize dest)")
    show ?thesis
    proof (cases eo)
      case None
      with assms val rm pl show ?thesis by (simp add: MoveCategory_def Let_def)
    next
      case (Some e')
      with pl have "s2 = s1" by (auto dest: placeCategory_error_unchanged)
      with assms val rm pl Some restoreCategory_after_remove [OF rm] show ?thesis
        by (simp add: MoveCategory_def Let_def)
    qed
  qed
qed

lemma task_at_clearFocus:
  "task_at (clearFocus s) loc = map_option unfocus (task_at s loc)"
  by (simp add: task_at_def clearFocus_def nth_opt_def clearCategoryFocus_def)

lemma findTask_task_at:
  assumes "findTask s tid = Some loc"
  shows "task_at s loc \<noteq> None"
  using assms
  by (cases rule: findTask_cases) (simp_all add: task_at_def nth_opt_def)

text \<open>
  Every operation other than \<open>UpdateTask\<close> and \<open>MoveTask\<close> leaves the board as it was
  when it returns an error.
\<close>

lemma errors_leave_board_unchanged:
  assumes "perform trim newid s op = (Some e, s')"
    and "\<forall>tid patch. op \<noteq> OpUpdateTask tid patch" and "\<forall>tid dest. op \<noteq> OpMoveTask tid dest"
  shows "s' = s"
proof (cases op)
  case (OpCreateTask req)
  with assms(1) show ?thesis
    by (auto simp: outcome_def CreateTask_def Let_def dest: insertTask_error_unchanged
             split: sum.splits option.splits)
       (metis insertTask_error_unchanged prod.collapse)
next
  case (OpUpdateTask tid patch)
  with assms(2) show ?thesis by simp
next
  case (OpMoveTask tid dest)
  with assms(3) show ?thesis by simp
next
  case (OpDeleteTask tid)
  with assms(1) show ?thesis
    by (auto simp: DeleteTask_def removeTask_def split: option.splits if_splits)
next
  case (OpCreateCategory name)
  with assms(1) show ?thesis
    by (auto simp: outcome_def CreateCategory_def Let_def split: sum.splits if_splits)
next
  case (OpRenameCategory cid name)
  with assms(1) show ?thesis
    by (auto simp: outcome_def RenameCategory_def Let_def split: sum.splits if_splits option.splits)
next
  case (OpMoveCategory cid dest)
  with assms(1) show ?thesis
    by (auto simp: outcome_def split: sum.splits) (metis MoveCategory_error_unchanged prod.collapse)
next
  case (OpReorderCategoryTasks cid order)
  with assms(1) show ?thesis
    by (auto simp: outcome_def ReorderCategoryTasks_def split: sum.splits option.splits)
next
  case (OpSetFocused tid)
  with assms(1) show ?thesis
    by (auto simp: outcome_def SetFocused_def Let_def task_at_clearFocus
             dest: findTask_task_at split: sum.splits option.splits if_splits)
qed

section \<open>No operation panics\<close>

lemma normalizeUrgent_beyond: "length (Categories s) \<le> i \<Longrightarrow> normalizeUrgent s i u = s"
  by (simp add: normalizeUrgent_def list_update_beyond)

lemma placeTask_error:
  assumes "placeTask s task d = (Some e, s2)"
  shows "e \<noteq> RuntimePanic \<and> (\<exists>idx u. s2 = normalizeUrgent s idx u)"
proof (cases "e = ErrCapacityExceeded")
  case True
  with assms placeTask_capacity [of s task d s2] show ?thesis by auto
next
  case False
  let ?d = "MoveTaskRequest_Normalize d"
  have stay: "s2 = s \<Longrightarrow> \<exists>idx u. s2 = normalizeUrgent s idx u"
    by (metis normalizeUrgent_beyond order_refl)
  show ?thesis
  proof (cases "MoveTaskRequest_Validate ?d")
    case (Some v)
    with assms have "e = v" "s2 = s" by (simp_all add: placeTask_def Let_def)
    with Some stay show ?thesis
      by (auto simp: MoveTaskRequest_Validate_def split: if_splits)
  next
    case None
    note val = this
    show ?thesis
    proof (cases "mv_Location ?d = LocationCategory")
      case True
      show ?thesis
      proof (cases "findCategoryIndex (Categories s) (mv_CategoryID ?d)")
        case None
        with assms val True have "e = ErrCategoryNotFound" "s2 = s"
          by (simp_all add: placeTask_def Let_def)
        with stay show ?thesis by simp
      next
        case (Some idx)
        from placeTask_category_eq [OF val True Some refl refl, of task] assms
        have "e = ErrCapacityExceeded"
          by (auto split: option.splits dest: ensureCapacity_err)
        with False show ?thesis by simp
      qed
    next
      case False
      with assms val have "e = ErrInvalidLocation" "s2 = s"
        by (auto simp: placeTask_def Let_def split: if_splits)
      with stay show ?thesis by simp
    qed
  qed
qed

lemma MoveTask_no_panic: "fst (MoveTask s tid dest) \<noteq> Inl RuntimePanic"
proof (cases "removeTask s tid")
  case None
  then show ?thesis by (simp add: MoveTask_def)
next
  case (Some r)
  obtain task loc s1 where r: "r = (task, loc, s1)" by (cases r)
  note rm = Some [unfolded r]
  obtain d where mv: "MoveTask s tid dest =
     (case placeTask s1 task d of
        (Some e, s2) \<Rightarrow> (case restoreTask s2 task loc of
                           Some s3 \<Rightarrow> (Inl e, s3) | None \<Rightarrow> (Inl RuntimePanic, s2))
      | (None, s2) \<Rightarrow> (Inr task, s2))"
    by (simp add: MoveTask_def rm Let_def)
  obtain eo s2 where p: "placeTask s1 task d = (eo, s2)" by (cases "placeTask s1 task d")
  show ?thesis
  proof (cases eo)
    case None
    with mv p show ?thesis by simp
  next
    case (Some e)
    from placeTask_error [OF p [unfolded Some]] obtain idx u where
      e: "e \<noteq> RuntimePanic" and s2: "s2 = normalizeUrgent s1 idx u" by blast
    from restoreTask_after_remove [OF rm, of idx u] s2 obtain s3 where
      "restoreTask s2 task loc = Some s3" by auto
    with mv p Some e show ?thesis by simp
  qed
qed

lemma task_at_set_task:
  "\<exists>t0. task_at s loc = Some t0 \<Longrightarrow> \<exists>t1. task_at (set_task s loc t) loc = Some t1"
  unfolding task_at_Some_iff by (auto simp: set_task_def split: if_splits)

lemma task_at_normalizeUrgent:
  "\<exists>t0. task_at s loc = Some t0 \<Longrightarrow> \<exists>t1. task_at (normalizeUrgent s i u) loc = Some t1"
  unfolding task_at_Some_iff
  by (cases "i < length (Categories s)")
     (auto simp: normalizeUrgent_def nth_list_update list_update_beyond split: if_splits)

lemma TaskPatch_Apply_error: "TaskPatch_Apply p t = (Some e, t') \<Longrightarrow> e \<noteq> RuntimePanic"
  by (auto simp: TaskPatch_Apply_def Let_def ValidateTaskState_def NormalizeSize_def
           split: option.splits sum.splits if_splits)

lemma UpdateTask_no_panic: "fst (UpdateTask s tid patch) \<noteq> Inl RuntimePanic"
proof (cases "findTask s tid")
  case None
  then show ?thesis by (simp add: UpdateTask_def)
next
  case (Some loc)
  from findTask_task_at [OF Some] obtain t0 where at: "task_at s loc = Some t0" by auto
  obtain eo t1 where ap: "TaskPatch_Apply patch t0 = (eo, t1)"
    by (cases "TaskPatch_Apply patch t0")
  show ?thesis
  proof (cases eo)
    case (Some e)
    with ap TaskPatch_Apply_error [of patch t0 e t1] Some \<open>findTask s tid = Some loc\<close> at
    show ?thesis by (simp add: UpdateTask_def)
  next
    case None
    from at have a1: "\<exists>t. task_at (set_task s loc t1) loc = Some t"
      by (intro task_at_set_task) simp
    then have a2: "\<exists>t. task_at (normalizeUrgent (set_task s loc t1) i u) loc = Some t" for i u
      by (rule task_at_normalizeUrgent)
    from a1 obtain ta where ta: "task_at (set_task s loc t1) loc = Some ta" by blast
    from a2 [of "CategoryIndex loc" "ID t1"] obtain tb where
      tb: "task_at (normalizeUrgent (set_task s loc t1) (CategoryIndex loc) (ID t1)) loc = Some tb"
      by blast
    from a2 [of "CategoryIndex loc" "[]"] obtain tc where
      tc: "task_at (normalizeUrgent (set_task s loc t1) (CategoryIndex loc) []) loc = Some tc"
      by blast
    from \<open>findTask s tid = Some loc\<close> at ap None ta tb tc show ?thesis
      by (auto simp: UpdateTask_def Let_def dest: ensureCapacity_err split: option.splits)
  qed
qed

text \<open>
  The run-time panics the model makes room for (an index past the end in
  \<^verbatim>\<open>restoreTask\<close> or \<^verbatim>\<open>restoreCategory\<close>, a dangling task pointer) never occur.
\<close>

lemma no_runtime_panic: "fst (perform trim newid s op) \<noteq> Some RuntimePanic"
proof (cases op)
  case (OpCreateTask req)
  then show ?thesis
    by (auto simp: outcome_def CreateTask_def insertTask_def Let_def
          CreateTaskRequest_Validate_def ValidateTaskState_def NormalizeSize_def
          dest: ensureCapacity_err split: sum.splits option.splits if_splits)
next
  case (OpUpdateTask tid patch)
  with UpdateTask_no_panic [of s tid patch] show ?thesis
    by (auto simp: outcome_def split: sum.splits)
next
  case (OpMoveTask tid dest)
  with MoveTask_no_panic [of s tid dest] show ?thesis
    by (auto simp: outcome_def split: sum.splits)
next
  case (OpDeleteTask tid)
  then show ?thesis
    by (auto simp: DeleteTask_def split: option.splits)
next
  case (OpCreateCategory name)
  then show ?thesis by (simp add: outcome_def CreateCategory_def Let_def)
next
  case (OpRenameCategory cid name)
  then show ?thesis
    by (simp add: outcome_def RenameCategory_def Let_def split: option.splits)
next
  case (OpMoveCategory cid dest)
  then show ?thesis
    by (auto simp: outcome_def MoveCategory_def Let_def MoveCategoryRequest_Validate_def
          placeCategory_def dest: restoreCategory_after_remove ensureCapacity_err
          split: sum.splits option.splits prod.splits if_splits)
next
  case (OpReorderCategoryTasks cid order)
  then show ?thesis
    by (auto simp: outcome_def ReorderCategoryTasks_def dest: reorderTasks_Inl
          split: sum.splits option.splits)
next
  case (OpSetFocused tid)
  then show ?thesis
    by (auto simp: outcome_def SetFocused_def Let_def task_at_clearFocus
          dest: findTask_task_at split: sum.splits option.splits)
qed

end
